theory Spec2Isabelle
  imports Main "HOL-Library.Sublist"
begin

section \<open>Data model of the matching VM\<close>

text \<open>
  Go strings are byte sequences: they are modelled as \<open>string\<close> (a list of 8-bit
  characters). A rune is a code point, modelled as an \<open>int\<close>. A run-time panic of the
  Go code is a value of type \<open>panic\<close>; a function that can panic returns
  \<open>panic + 'a\<close> with \<open>Inl\<close> for the panic.
\<close>

type_synonym rune = int

datatype panic =
    IndexOutOfRange
  | UnknownInstruction
  | UnsupportedOpcode
  | UnknownNode
  | TypeAssertion
  | Abort

text \<open>
  \<open>opcode\<close> is an \<open>int\<close> in the source with seven named values; any other value
  reaches the \<open>default\<close> branch of \<open>vm.continu\<close> and is \<open>OpUnknown\<close> here.
\<close>

datatype opcode = OpNop | OpSplit | OpJmp | OpCmp | OpSave | OpMeta | OpMatch | OpUnknown

text \<open>
  \<open>instr\<close>: the arrays \<open>ints [2]int\<close> and \<open>strs [2]string\<close> are the fields
  \<open>ints0, ints1\<close> and \<open>strs0, strs1\<close>; \<open>intf interface{}\<close> is \<open>None\<close> when nil.
\<close>

record 'm instr =
  opcode :: opcode
  ints0 :: int
  ints1 :: int
  strs0 :: string
  strs1 :: string
  intf :: "'m option"
  gen :: int

definition zero_instr :: "'m instr" where
  "zero_instr = \<lparr>opcode = OpNop, ints0 = 0, ints1 = 0, strs0 = [], strs1 = [],
                 intf = None, gen = 0\<rparr>"

text \<open>
  \<open>binding\<close>: the source holds a pointer into the program and a pointer into the input.
  The opcode and the strings of an instruction and the words of the input are never
  written during a run, so the binding holds the instruction and the word themselves.
\<close>

record 'm binding =
  b_instr :: "'m instr"
  b_val :: string

record 'm thread =
  pc :: int
  items :: "'m binding list"
  meta :: "'m option"

datatype item = KeywordValue string string | VarValue string string string

text \<open>The fields \<open>items\<close> and \<open>meta\<close> of a match are \<open>match_items\<close> and \<open>match_meta\<close>.\<close>

record 'm match =
  match_items :: "item list"
  match_meta :: "'m option"

definition zero_match :: "'m match" where
  "zero_match = \<lparr>match_items = [], match_meta = None\<rparr>"

text \<open>
  \<open>vm\<close>: the field \<open>gen\<close> is \<open>vm_gen\<close>. It is an \<open>int\<close> of 64 bits in the source, set to 1
  by \<open>execute\<close> and incremented once per word step, and an unbounded \<open>int\<close> here. The
  trace writer is nil (\<open>False\<close>) or set (\<open>True\<close>).
\<close>

record 'm vm =
  prog :: "'m instr list"
  input :: "string list"
  currentThreads :: "'m thread list"
  nextThreads :: "'m thread list"
  matches :: "'m match list"
  vm_gen :: int
  wordIndex :: nat
  traceWriter :: bool


section \<open>Runes and strings\<close>

text \<open>
  \<open>IsSpace\<close> is \<open>unicode.IsSpace\<close> of the Go library: the Latin-1 spaces and the
  code points with the White_Space property.
\<close>

definition IsSpace :: "rune \<Rightarrow> bool" where
  "IsSpace r \<longleftrightarrow>
     r \<in> {0x09, 0x0A, 0x0B, 0x0C, 0x0D, 0x20, 0x85, 0xA0, 0x1680, 0x2028, 0x2029,
           0x202F, 0x205F, 0x3000} \<or> (0x2000 \<le> r \<and> r \<le> 0x200A)"

text \<open>
  \<open>encodeRune r\<close> is what \<open>bytes.Buffer.WriteRune\<close> appends: the UTF-8 encoding of
  \<open>r\<close>, and the encoding of U+FFFD for a surrogate and for a value out of range.
\<close>

definition encodeRune :: "rune \<Rightarrow> string" where
  "encodeRune r =
     (if 0 \<le> r \<and> r \<le> 0x7F then [char_of r]
      else if 0 \<le> r \<and> r \<le> 0x7FF then
        [char_of (0xC0 + r div 64), char_of (0x80 + r mod 64)]
      else if r < 0 \<or> 0x10FFFF < r \<or> (0xD800 \<le> r \<and> r \<le> 0xDFFF) then
        [char_of (0xEF :: int), char_of (0xBF :: int), char_of (0xBD :: int)]
      else if r \<le> 0xFFFF then
        [char_of (0xE0 + r div 4096), char_of (0x80 + (r div 64) mod 64),
         char_of (0x80 + r mod 64)]
      else
        [char_of (0xF0 + r div 262144), char_of (0x80 + (r div 4096) mod 64),
         char_of (0x80 + (r div 64) mod 64), char_of (0x80 + r mod 64)])"

definition encodeRunes :: "rune list \<Rightarrow> string" where
  "encodeRunes rs = concat (map encodeRune rs)"

section \<open>Parse trees\<close>

text \<open>
  A parse tree is an \<open>interface{}\<close> in the source: \<open>Nil\<close> is the nil interface (the
  tree of an empty syntax), and \<open>repOp\<close> is an \<open>int\<close> whose values other than the three
  operators behave as \<open>RepeatUnset\<close> in every \<open>switch\<close> of the compiler.
\<close>

datatype repOp = RepeatUnset | RepeatZeroOrMore | RepeatOneOrMore | RepeatZeroOrOne

datatype 'm node =
    Nil
  | Word string
  | Variable string string
  | Alts "'m node" "'m node"
  | Terms "'m node" "'m node"
  | Rep repOp "'m node"
  | Meta "'m option" "'m node"

section \<open>The grammar scanner\<close>

text \<open>
  \<open>tokenType\<close> is an \<open>int\<close> with eleven named values. The fields \<open>typ\<close>, \<open>value\<close> and
  \<open>pos\<close> of a token are \<open>tok_typ\<close>, \<open>tok_value\<close> and \<open>tok_pos\<close>; \<open>tok_len\<close> is
  \<open>token.len\<close>, which counts the bytes of the value of a word.
\<close>

datatype tokenType =
    NilTok | LessThanTok | GreaterThanTok | PipeTok | StarTok | PlusTok | QuestionTok
  | LeftParenTok | RightParenTok | ColonTok | WordTok

record token =
  tok_typ :: tokenType
  tok_value :: string
  tok_pos :: nat

definition tokenType :: "token \<Rightarrow> tokenType" where
  "tokenType t = tok_typ t"

definition tok_len :: "token \<Rightarrow> nat" where
  "tok_len t = (if tok_typ t = WordTok then length (tok_value t) else 1)"

definition nilToken :: token where
  "nilToken = \<lparr>tok_typ = NilTok, tok_value = [], tok_pos = 0\<rparr>"

text \<open>The error of \<open>scanner.next\<close>: \<open>io.EOF\<close>, or the message of an invalid character.\<close>

datatype scanError = EOF | InvalidCharacter string

record scanner =
  s_pos :: nat
  s_input :: "rune list"
  s_tokens :: "token list"
  s_errs :: "string list"

definition zero_scanner :: scanner where
  "zero_scanner = \<lparr>s_pos = 0, s_input = [], s_tokens = [], s_errs = []\<rparr>"

text \<open>
  \<open>unicode.IsLetter\<close> and \<open>unicode.IsDigit\<close> are tables of the Go library, not of this
  repository: they are the parameters \<open>L\<close> and \<open>D\<close> of the scanner.
\<close>

definition isValidWordRune :: "(rune \<Rightarrow> bool) \<Rightarrow> (rune \<Rightarrow> bool) \<Rightarrow> rune \<Rightarrow> bool" where
  "isValidWordRune L D r \<longleftrightarrow> L r \<or> D r \<or> r = 0x5F \<or> r = 0x2D"

text \<open>The first loop of \<open>scanner.next\<close>: the position of the next rune that is no space.\<close>

function skipSpaces :: "rune list \<Rightarrow> nat \<Rightarrow> nat" where
  "skipSpaces inp p =
     (if length inp \<le> p then p
      else if \<not> IsSpace (inp ! p) then p
      else skipSpaces inp (p + 1))"
  by pat_completeness auto
termination
  by (relation "measure (\<lambda>(inp, p). length inp - p)") auto

declare skipSpaces.simps [simp del]

text \<open>The loop of \<open>scanner.word\<close>: the buffer and the position after the word.\<close>

function wordLoop ::
    "(rune \<Rightarrow> bool) \<Rightarrow> (rune \<Rightarrow> bool) \<Rightarrow> rune list \<Rightarrow> nat \<Rightarrow> string \<Rightarrow> string \<times> nat" where
  "wordLoop L D inp p buf =
     (if p < length inp \<and> isValidWordRune L D (inp ! p) then
        (if length inp \<le> p + 1 then (buf @ encodeRune (inp ! p), p + 1)
         else wordLoop L D inp (p + 1) (buf @ encodeRune (inp ! p)))
      else (buf, p))"
  by pat_completeness auto
termination
  by (relation "measure (\<lambda>(L, D, inp, p, buf). length inp - p)") auto

declare wordLoop.simps [simp del]

definition scan_word ::
    "(rune \<Rightarrow> bool) \<Rightarrow> (rune \<Rightarrow> bool) \<Rightarrow> scanner \<Rightarrow> panic + token \<times> scanError option \<times> scanner" where
  "scan_word L D s =
     (if length (s_input s) \<le> s_pos s then Inl IndexOutOfRange
      else
        let r = s_input s ! s_pos s in
        if \<not> isValidWordRune L D r then
          Inr (nilToken,
               Some (InvalidCharacter (''Invalid character '' @ [CHR 0x27] @ encodeRune r @ [CHR 0x27]
                                        @ '' encountered'')),
               s\<lparr>s_pos := s_pos s + 1\<rparr>)
        else
          case wordLoop L D (s_input s) (s_pos s) [] of
            (buf, p) \<Rightarrow> Inr (\<lparr>tok_typ = WordTok, tok_value = buf, tok_pos = 0\<rparr>, None, s\<lparr>s_pos := p\<rparr>))"

text \<open>The cases of the \<open>switch\<close> of \<open>scanner.next\<close> other than \<open>default\<close>.\<close>

definition punct :: "rune \<Rightarrow> tokenType option" where
  "punct r =
     (if r = 0x3C then Some LessThanTok
      else if r = 0x3E then Some GreaterThanTok
      else if r = 0x7C then Some PipeTok
      else if r = 0x2A then Some StarTok
      else if r = 0x2B then Some PlusTok
      else if r = 0x3F then Some QuestionTok
      else if r = 0x28 then Some LeftParenTok
      else if r = 0x29 then Some RightParenTok
      else if r = 0x3A then Some ColonTok
      else None)"

definition scan_next ::
    "(rune \<Rightarrow> bool) \<Rightarrow> (rune \<Rightarrow> bool) \<Rightarrow> scanner \<Rightarrow> panic + token \<times> scanError option \<times> scanner" where
  "scan_next L D s =
     (let p = skipSpaces (s_input s) (s_pos s); s1 = s\<lparr>s_pos := p\<rparr> in
      if length (s_input s) \<le> p then Inr (nilToken, Some EOF, s1)
      else
        case punct (s_input s ! p) of
          Some ty \<Rightarrow> Inr (\<lparr>tok_typ = ty, tok_value = [], tok_pos = p\<rparr>, None, s1\<lparr>s_pos := p + 1\<rparr>)
        | None \<Rightarrow>
            (case scan_word L D s1 of
               Inl e \<Rightarrow> Inl e
             | Inr (tok, Some err, s2) \<Rightarrow> Inr (tok, Some err, s2)
             | Inr (tok, None, s2) \<Rightarrow> Inr (tok\<lparr>tok_pos := p\<rparr>, None, s2)))"

lemma skipSpaces_ge: "p \<le> skipSpaces inp p"
proof (induction inp p rule: skipSpaces.induct)
  case (1 inp p)
  show ?case
  proof (cases "length inp \<le> p \<or> \<not> IsSpace (inp ! p)")
    case True
    then show ?thesis by (subst skipSpaces.simps) auto
  next
    case False
    with 1 have "p + 1 \<le> skipSpaces inp (p + 1)" by simp
    with False show ?thesis by (subst skipSpaces.simps) auto
  qed
qed

lemma wordLoop_gt:
  "p < length inp \<Longrightarrow> isValidWordRune L D (inp ! p) \<Longrightarrow> wordLoop L D inp p buf = (b, q) \<Longrightarrow> p < q"
proof (induction L D inp p buf arbitrary: b q rule: wordLoop.induct)
  case (1 L D inp p buf)
  show ?case
  proof (cases "length inp \<le> p + 1")
    case True
    with 1(2,3,4) show ?thesis by (subst (asm) wordLoop.simps) auto
  next
    case False
    show ?thesis
    proof (cases "isValidWordRune L D (inp ! (p + 1))")
      case True
      from 1(2,3,4) False have "wordLoop L D inp (p + 1) (buf @ encodeRune (inp ! p)) = (b, q)"
        by (subst (asm) wordLoop.simps) auto
      from 1(1)[OF _ False _ True this] 1(2,3) False show ?thesis by simp
    next
      case F2: False
      from 1(2,3,4) False have "wordLoop L D inp (p + 1) (buf @ encodeRune (inp ! p)) = (b, q)"
        by (subst (asm) wordLoop.simps) auto
      with F2 have "q = p + 1" by (subst (asm) wordLoop.simps) auto
      then show ?thesis by simp
    qed
  qed
qed

lemma scan_next_progress:
  assumes "scan_next L D s = Inr (t, e, s')" and "e \<noteq> Some EOF"
  shows "s_input s' = s_input s \<and> s_pos s < s_pos s' \<and> s_pos s < length (s_input s)"
proof -
  let ?p = "skipSpaces (s_input s) (s_pos s)"
  have ge: "s_pos s \<le> ?p" by (rule skipSpaces_ge)
  from assms have lt: "?p < length (s_input s)"
    by (auto simp: scan_next_def Let_def split: if_splits)
  show ?thesis
  proof (cases "punct (s_input s ! ?p)")
    case (Some ty)
    with assms lt ge show ?thesis by (auto simp: scan_next_def Let_def)
  next
    case None
    show ?thesis
    proof (cases "isValidWordRune L D (s_input s ! ?p)")
      case True
      obtain b q where w: "wordLoop L D (s_input s) ?p [] = (b, q)" by (cases "wordLoop L D (s_input s) ?p []")
      from wordLoop_gt[OF lt True w] have "?p < q" .
      with assms None lt ge True w show ?thesis
        by (auto simp: scan_next_def scan_word_def Let_def)
    next
      case False
      with assms None lt ge show ?thesis
        by (auto simp: scan_next_def scan_word_def Let_def)
    qed
  qed
qed

text \<open>
  The loop of \<open>scanner.Scan\<close>: it ends at \<open>io.EOF\<close>; any other error is recorded, and the
  token returned with it (the nil token) is added like any other.
\<close>

function scanLoop :: "(rune \<Rightarrow> bool) \<Rightarrow> (rune \<Rightarrow> bool) \<Rightarrow> scanner \<Rightarrow> panic + scanner" where
  "scanLoop L D s =
     (case scan_next L D s of
        Inl e \<Rightarrow> Inl e
      | Inr (t, Some EOF, s') \<Rightarrow> Inr s'
      | Inr (t, Some (InvalidCharacter m), s') \<Rightarrow>
          scanLoop L D (s'\<lparr>s_errs := s_errs s' @ [m], s_tokens := s_tokens s' @ [t]\<rparr>)
      | Inr (t, None, s') \<Rightarrow> scanLoop L D (s'\<lparr>s_tokens := s_tokens s' @ [t]\<rparr>))"
  by pat_completeness auto
termination
proof (relation "measure (\<lambda>(L, D, s). length (s_input s) - s_pos s)")
  show "wf (measure (\<lambda>(L, D, s). length (s_input s) - s_pos s))" by simp
next
  fix L D s x2 t y e s' m
  assume "scan_next L D s = Inr x2" "(t, y) = x2" "(e, s') = y" "e = None"
  then have "scan_next L D s = Inr (t, None, s')" by simp
  from scan_next_progress[OF this] 
  show "((L, D, s'\<lparr>s_tokens := s_tokens s' @ [t]\<rparr>), L, D, s) \<in> measure (\<lambda>(L, D, s). length (s_input s) - s_pos s)"
    by auto
next
  fix L D s x2 t y e s' x2a m
  assume "scan_next L D s = Inr x2" "(t, y) = x2" "(e, s') = y" "e = Some x2a" "x2a = InvalidCharacter m"
  then have "scan_next L D s = Inr (t, Some (InvalidCharacter m), s')" by simp
  from scan_next_progress[OF this] 
  show "((L, D, s'\<lparr>s_errs := s_errs s' @ [m], s_tokens := s_tokens s' @ [t]\<rparr>), L, D, s) \<in> measure (\<lambda>(L, D, s). length (s_input s) - s_pos s)"
    by auto
qed

declare scanLoop.simps [simp del]

text \<open>\<open>scanner.Scan\<close>: the tokens and \<open>ok\<close>, with the scanner (whose \<open>errs\<close> the caller reads).\<close>

definition scanner_Scan ::
    "(rune \<Rightarrow> bool) \<Rightarrow> (rune \<Rightarrow> bool) \<Rightarrow> scanner \<Rightarrow> rune list \<Rightarrow> panic + (token list \<times> bool) \<times> scanner" where
  "scanner_Scan L D s cmd =
     (case scanLoop L D (s\<lparr>s_input := cmd, s_tokens := [], s_errs := []\<rparr>) of
        Inl e \<Rightarrow> Inl e
      | Inr s' \<Rightarrow> Inr ((s_tokens s', length (s_errs s') = 0), s'))"

section \<open>The grammar parser\<close>

text \<open>
  The fields \<open>tokens\<close>, \<open>errors\<close> and \<open>current\<close> are \<open>p_tokens\<close>, \<open>p_errors\<close> and
  \<open>p_current\<close>. An error is its message.
\<close>

record parser =
  p_tokens :: "token list"
  p_errors :: "string list"
  p_current :: nat
  matchLimit :: int
  matchCalls :: int

definition zero_parser :: parser where
  "zero_parser = \<lparr>p_tokens = [], p_errors = [], p_current = 0, matchLimit = 0, matchCalls = 0\<rparr>"

text \<open>The decimal digits of a number, as \<open>%d\<close> prints it.\<close>

function showNat :: "nat \<Rightarrow> string" where
  "showNat n =
     (if n < 10 then [char_of (48 + n)]
      else showNat (n div 10) @ [char_of (48 + n mod 10)])"
  by pat_completeness auto
termination
  by (relation "measure id") auto

declare showNat.simps [simp del]

definition atEnd :: "parser \<Rightarrow> bool" where
  "atEnd p \<longleftrightarrow> length (p_tokens p) \<le> p_current p"

definition peek :: "parser \<Rightarrow> panic + token" where
  "peek p =
     (if p_current p < length (p_tokens p) then Inr (p_tokens p ! p_current p)
      else Inl IndexOutOfRange)"

definition previous :: "parser \<Rightarrow> panic + token" where
  "previous p =
     (if 0 < p_current p \<and> p_current p - 1 < length (p_tokens p)
      then Inr (p_tokens p ! (p_current p - 1))
      else Inl IndexOutOfRange)"

definition check :: "parser \<Rightarrow> tokenType \<Rightarrow> panic + bool" where
  "check p ty =
     (if atEnd p then Inr False
      else case peek p of Inl e \<Rightarrow> Inl e | Inr t \<Rightarrow> Inr (tokenType t = ty))"

definition advance :: "parser \<Rightarrow> panic + token \<times> parser" where
  "advance p =
     (let p' = (if \<not> atEnd p then p\<lparr>p_current := p_current p + 1\<rparr> else p)
      in case previous p' of Inl e \<Rightarrow> Inl e | Inr t \<Rightarrow> Inr (t, p'))"

text \<open>The loop of \<open>parser.match\<close> over the token types.\<close>

fun matchTypes :: "parser \<Rightarrow> tokenType list \<Rightarrow> panic + bool \<times> parser" where
  "matchTypes p [] = Inr (False, p)"
| "matchTypes p (t # ts) =
     (case check p t of
        Inl e \<Rightarrow> Inl e
      | Inr True \<Rightarrow> (case advance p of Inl e \<Rightarrow> Inl e | Inr (tok, p') \<Rightarrow> Inr (True, p'))
      | Inr False \<Rightarrow> matchTypes p ts)"

definition match :: "parser \<Rightarrow> tokenType list \<Rightarrow> panic + bool \<times> parser" where
  "match p types =
     (if matchLimit p > 0 then
        (let p' = p\<lparr>matchCalls := matchCalls p + 1\<rparr>
         in if matchCalls p' > matchLimit p' then Inl Abort else matchTypes p' types)
      else matchTypes p types)"

definition runePosition :: "parser \<Rightarrow> panic + nat" where
  "runePosition p =
     (if p_current p = 0 then Inr 1
      else case previous p of Inl e \<Rightarrow> Inl e | Inr t \<Rightarrow> Inr (tok_pos t + tok_len t))"

definition addError :: "parser \<Rightarrow> string \<Rightarrow> parser" where
  "addError p e = p\<lparr>p_errors := p_errors p @ [e]\<rparr>"

definition addErrorAtPosition :: "parser \<Rightarrow> string \<Rightarrow> panic + parser" where
  "addErrorAtPosition p msg =
     (case runePosition p of
        Inl e \<Rightarrow> Inl e
      | Inr k \<Rightarrow> Inr (addError p (''At character '' @ showNat (k + 1) @ '': '' @ msg)))"

text \<open>
  The methods \<open>Word\<close>, \<open>Var\<close>, \<open>Term\<close>, \<open>Group\<close>, \<open>Repetition\<close>, \<open>Terms\<close>,
  \<open>Alternatives\<close> and \<open>Command\<close> of the parser are \<open>parseWord\<close>, \<open>parseVar\<close> and so on
  (\<open>Word\<close> and \<open>Terms\<close> are node constructors here); a nil result is the tree \<open>Nil\<close>.

  Sequencing of calls that can panic, and of calls that can also run out of fuel.
\<close>

definition sbind :: "panic + 'a \<Rightarrow> ('a \<Rightarrow> panic + 'b) \<Rightarrow> panic + 'b" where
  "sbind m f = (case m of Inl e \<Rightarrow> Inl e | Inr x \<Rightarrow> f x)"

definition fbind :: "(panic + 'a) option \<Rightarrow> ('a \<Rightarrow> (panic + 'b) option) \<Rightarrow> (panic + 'b) option" where
  "fbind m f = (case m of None \<Rightarrow> None | Some (Inl e) \<Rightarrow> Some (Inl e) | Some (Inr x) \<Rightarrow> f x)"

definition parseWord :: "parser \<Rightarrow> panic + 'm node \<times> parser" where
  "parseWord p =
     sbind (match p [WordTok]) (\<lambda>(m, p1).
       if \<not> m then Inr (Nil, p1)
       else sbind (previous p1) (\<lambda>t. Inr (Word (tok_value t), p1)))"

text \<open>The type assertion \<open>x.(word)\<close>.\<close>

definition wordString :: "'m node \<Rightarrow> panic + string" where
  "wordString n = (case n of Word w \<Rightarrow> Inr w | _ \<Rightarrow> Inl TypeAssertion)"

text \<open>
  \<open>parseVar\<close> is \<open>parser.Var\<close>. The part up to the test for \<open>>\<close> yields \<open>None\<close> where
  the source has returned nil already, and the type with \<open>hasColon\<close> otherwise.
\<close>

definition parseVar :: "parser \<Rightarrow> panic + 'm node \<times> parser" where
  "parseVar p =
     sbind (match p [LessThanTok]) (\<lambda>(m, p1).
       if \<not> m then Inr (Nil, p1)
       else
         sbind (parseWord p1 :: panic + 'm node \<times> parser) (\<lambda>(name, p2).
           if name = Nil then
             sbind (addErrorAtPosition p2 ''expected variable name after <'') (\<lambda>p3. Inr (Nil, p3))
           else
             sbind (match p2 [ColonTok]) (\<lambda>(m2, p3).
               sbind
                 (if \<not> m2 then Inr (Some (''str'', False), p3)
                  else
                    sbind (parseWord p3 :: panic + 'm node \<times> parser) (\<lambda>(w, p4).
                      if w = Nil then
                        sbind (addErrorAtPosition p4 ''expected variable type after :'')
                          (\<lambda>p5. Inr (None, p5))
                      else sbind (wordString w) (\<lambda>ty. Inr (Some (ty, True), p4))))
                 (\<lambda>(r, p6).
                    case r of
                      None \<Rightarrow> Inr (Nil, p6)
                    | Some (ty, hasColon) \<Rightarrow>
                        sbind (match p6 [GreaterThanTok]) (\<lambda>(m3, p7).
                          if \<not> m3 then
                            sbind
                              (addErrorAtPosition p7
                                 (if hasColon then ''expected > to complete variable definition''
                                  else ''expected either : to specify variable type, or > to complete variable definition''))
                              (\<lambda>p8. Inr (Nil, p8))
                          else sbind (wordString name) (\<lambda>n. Inr (Variable n ty, p7)))))))"

definition parseTerm :: "parser \<Rightarrow> panic + 'm node \<times> parser" where
  "parseTerm p =
     sbind (parseVar p) (\<lambda>(r, p1). if r = Nil then parseWord p1 else Inr (r, p1))"

text \<open>
  The mutually recursive functions \<open>Alternatives\<close>, \<open>Terms\<close>, \<open>Repetition\<close> and
  \<open>Group\<close>. Their first argument is fuel: every call uses one unit, and the result is
  \<open>None\<close> when the fuel does not suffice.
\<close>

fun parseAlternatives :: "nat \<Rightarrow> parser \<Rightarrow> (panic + 'm node \<times> parser) option"
  and parseTerms :: "nat \<Rightarrow> parser \<Rightarrow> (panic + 'm node \<times> parser) option"
  and parseRepetition :: "nat \<Rightarrow> parser \<Rightarrow> (panic + 'm node \<times> parser) option"
  and parseGroup :: "nat \<Rightarrow> parser \<Rightarrow> (panic + 'm node \<times> parser) option" where
  "parseAlternatives 0 p = None"
| "parseAlternatives (Suc n) p =
     fbind (parseTerms n p) (\<lambda>(l, p1).
       fbind (Some (match p1 [PipeTok])) (\<lambda>(m, p2).
         if m then
           fbind (parseAlternatives n p2) (\<lambda>(r, p3).
             if r = Nil then
               fbind (Some (addErrorAtPosition p3 ''expected more tokens after the |''))
                 (\<lambda>p4. Some (Inr (l, p4)))
             else Some (Inr (Alts l r, p3)))
         else Some (Inr (l, p2))))"
| "parseTerms 0 p = None"
| "parseTerms (Suc n) p =
     fbind (parseRepetition n p) (\<lambda>(l, p1).
       if l = Nil then Some (Inr (Nil, p1))
       else if \<not> atEnd p1 then
         fbind (parseTerms n p1) (\<lambda>(r, p2).
           if r = Nil then Some (Inr (l, p2)) else Some (Inr (Terms l r, p2)))
       else Some (Inr (l, p1)))"
| "parseRepetition 0 p = None"
| "parseRepetition (Suc n) p =
     fbind (parseGroup n p) (\<lambda>(t, p1).
       if t = Nil then Some (Inr (Nil, p1))
       else
         fbind (Some (match p1 [StarTok, PlusTok, QuestionTok])) (\<lambda>(m, p2).
           if m then
             fbind (Some (previous p2)) (\<lambda>tok.
               Some (Inr (Rep (if tokenType tok = StarTok then RepeatZeroOrMore
                               else if tokenType tok = PlusTok then RepeatOneOrMore
                               else if tokenType tok = QuestionTok then RepeatZeroOrOne
                               else RepeatUnset) t, p2)))
           else Some (Inr (t, p2))))"
| "parseGroup 0 p = None"
| "parseGroup (Suc n) p =
     fbind (Some (match p [LeftParenTok])) (\<lambda>(m, p1).
       if m then
         fbind (parseAlternatives n p1) (\<lambda>(res, p2).
           fbind (Some (match p2 [RightParenTok])) (\<lambda>(m2, p3).
             if \<not> m2 then
               fbind (Some (addErrorAtPosition p3 ''expected ) to close the group''))
                 (\<lambda>p4. Some (Inr (res, p4)))
             else Some (Inr (res, p3))))
       else Some (parseTerm p1))"

definition parseCommand :: "nat \<Rightarrow> parser \<Rightarrow> (panic + 'm node \<times> parser) option" where
  "parseCommand fuel p = parseAlternatives fuel p"

text \<open>
  \<open>parser.parse\<close> and \<open>parser.Parse\<close>: the tree and the accumulated errors; the error
  that \<open>Parse\<close> returns is nil exactly when the list is empty.
\<close>

definition parser_parse :: "nat \<Rightarrow> parser \<Rightarrow> (panic + ('m node \<times> string list) \<times> parser) option" where
  "parser_parse fuel p =
     fbind (parseCommand fuel p) (\<lambda>(tree, p1).
       fbind (if \<not> atEnd p1
              then Some (addErrorAtPosition p1 ''extra tokens after end of command'')
              else Some (Inr p1))
         (\<lambda>p2. Some (Inr ((tree, p_errors p2), p2))))"

definition parser_Parse ::
    "nat \<Rightarrow> parser \<Rightarrow> token list \<Rightarrow> (panic + ('m node \<times> string list) \<times> parser) option" where
  "parser_Parse fuel p tokens =
     parser_parse fuel (p\<lparr>p_tokens := tokens, p_errors := [], p_current := 0\<rparr>)"

section \<open>The compiler\<close>

text \<open>The fields \<open>instr\<close> and \<open>pc\<close> of the compiler are \<open>c_instr\<close> and \<open>c_pc\<close>.\<close>

record 'm compiler =
  c_instr :: "'m instr list"
  c_pc :: nat

text \<open>The zero value \<open>var cmp compiler\<close>.\<close>

definition zero_compiler :: "'m compiler" where
  "zero_compiler = \<lparr>c_instr = [], c_pc = 0\<rparr>"

text \<open>
  \<open>countinstr\<close>: Go evaluates the operands of \<open>+\<close> from left to right, so the panic of
  the left subtree comes first. A \<open>rep\<close> whose operator matches no case leaves both
  switches and reaches \<open>return 0\<close>.
\<close>

fun countinstr :: "'m node \<Rightarrow> panic + nat" where
  "countinstr (Alts l r) =
     (case countinstr l of
        Inl e \<Rightarrow> Inl e
      | Inr a \<Rightarrow> (case countinstr r of Inl e \<Rightarrow> Inl e | Inr b \<Rightarrow> Inr (2 + a + b)))"
| "countinstr (Word w) = Inr 1"
| "countinstr (Variable n t) = Inr 1"
| "countinstr (Rep op t) =
     (case op of
        RepeatZeroOrMore \<Rightarrow> (case countinstr t of Inl e \<Rightarrow> Inl e | Inr a \<Rightarrow> Inr (2 + a))
      | RepeatOneOrMore \<Rightarrow> (case countinstr t of Inl e \<Rightarrow> Inl e | Inr a \<Rightarrow> Inr (a + 1))
      | RepeatZeroOrOne \<Rightarrow> (case countinstr t of Inl e \<Rightarrow> Inl e | Inr a \<Rightarrow> Inr (1 + a))
      | RepeatUnset \<Rightarrow> Inr 0)"
| "countinstr (Terms l r) =
     (case countinstr l of
        Inl e \<Rightarrow> Inl e
      | Inr a \<Rightarrow> (case countinstr r of Inl e \<Rightarrow> Inl e | Inr b \<Rightarrow> Inr (a + b)))"
| "countinstr (Meta d ch) =
     (case countinstr ch of Inl e \<Rightarrow> Inl e | Inr a \<Rightarrow> Inr (1 + a))"
| "countinstr Nil = Inl UnknownNode"

definition countinstrForProgram :: "'m node \<Rightarrow> panic + nat" where
  "countinstrForProgram ptree =
     (case countinstr ptree of Inl e \<Rightarrow> Inl e | Inr n \<Rightarrow> Inr (n + 1))"

text \<open>
  The source takes a pointer \<open>&c.instr[c.pc]\<close> (a bounds check, which panics out of
  range) and writes through it later: \<open>setInstr c i f\<close> is such a write to
  \<open>c.instr[i]\<close>, made only at an index that has passed the check.
\<close>

definition setInstr :: "'m compiler \<Rightarrow> nat \<Rightarrow> ('m instr \<Rightarrow> 'm instr) \<Rightarrow> 'm compiler" where
  "setInstr c i f = c\<lparr>c_instr := (c_instr c)[i := f (c_instr c ! i)]\<rparr>"

definition emitWord :: "string \<Rightarrow> 'm compiler \<Rightarrow> panic + 'm compiler" where
  "emitWord w c =
     (if c_pc c < length (c_instr c) then
        Inr ((setInstr c (c_pc c) (\<lambda>i. i\<lparr>opcode := OpCmp, strs0 := w\<rparr>))\<lparr>c_pc := c_pc c + 1\<rparr>)
      else Inl IndexOutOfRange)"

definition emitVar :: "string \<Rightarrow> string \<Rightarrow> 'm compiler \<Rightarrow> panic + 'm compiler" where
  "emitVar n t c =
     (if c_pc c < length (c_instr c) then
        Inr ((setInstr c (c_pc c) (\<lambda>i. i\<lparr>opcode := OpSave, strs0 := n, strs1 := t\<rparr>))
               \<lparr>c_pc := c_pc c + 1\<rparr>)
      else Inl IndexOutOfRange)"

definition emitMatch :: "'m compiler \<Rightarrow> panic + 'm compiler" where
  "emitMatch c =
     (if c_pc c < length (c_instr c) then
        Inr ((setInstr c (c_pc c) (\<lambda>i. i\<lparr>opcode := OpMatch\<rparr>))\<lparr>c_pc := c_pc c + 1\<rparr>)
      else Inl IndexOutOfRange)"

text \<open>
  \<open>emit\<close> with \<open>emitAlts\<close>, \<open>emitTerms\<close>, \<open>emitRep\<close> (\<open>emitZeroOrMore\<close>,
  \<open>emitOneOrMore\<close>, \<open>emitZeroOrOne\<close>) and \<open>emitMeta\<close>, which call it back, as one
  recursion over the tree; each equation is the body of the function the \<open>switch\<close> of
  \<open>emit\<close> selects.
\<close>

fun emit :: "'m node \<Rightarrow> 'm compiler \<Rightarrow> panic + 'm compiler" where
  "emit (Alts l r) c =
     (if c_pc c < length (c_instr c) then
        let split = c_pc c;
            c1 = (setInstr c split (\<lambda>i. i\<lparr>opcode := OpSplit, ints0 := int (c_pc c) + 1\<rparr>))
                   \<lparr>c_pc := c_pc c + 1\<rparr>
        in case emit l c1 of
             Inl e \<Rightarrow> Inl e
           | Inr c2 \<Rightarrow>
               if c_pc c2 < length (c_instr c2) then
                 let jmp = c_pc c2;
                     c3 = (setInstr c2 jmp (\<lambda>i. i\<lparr>opcode := OpJmp\<rparr>))\<lparr>c_pc := c_pc c2 + 1\<rparr>;
                     c4 = setInstr c3 split (\<lambda>i. i\<lparr>ints1 := int (c_pc c3)\<rparr>)
                 in case emit r c4 of
                      Inl e \<Rightarrow> Inl e
                    | Inr c5 \<Rightarrow> Inr (setInstr c5 jmp (\<lambda>i. i\<lparr>ints0 := int (c_pc c5)\<rparr>))
               else Inl IndexOutOfRange
      else Inl IndexOutOfRange)"
| "emit (Word w) c = emitWord w c"
| "emit (Variable n t) c = emitVar n t c"
| "emit (Terms l r) c =
     (case emit l c of Inl e \<Rightarrow> Inl e | Inr c1 \<Rightarrow> emit r c1)"
| "emit (Rep RepeatZeroOrMore t) c =
     (if c_pc c < length (c_instr c) then
        let splitNdx = c_pc c;
            c1 = (setInstr c splitNdx (\<lambda>i. i\<lparr>opcode := OpSplit, ints0 := int (c_pc c) + 1\<rparr>))
                   \<lparr>c_pc := c_pc c + 1\<rparr>
        in case emit t c1 of
             Inl e \<Rightarrow> Inl e
           | Inr c2 \<Rightarrow>
               if c_pc c2 < length (c_instr c2) then
                 let c3 = (setInstr c2 (c_pc c2) (\<lambda>i. i\<lparr>opcode := OpJmp, ints0 := int splitNdx\<rparr>))
                            \<lparr>c_pc := c_pc c2 + 1\<rparr>
                 in Inr (setInstr c3 splitNdx (\<lambda>i. i\<lparr>ints1 := int (c_pc c3)\<rparr>))
               else Inl IndexOutOfRange
      else Inl IndexOutOfRange)"
| "emit (Rep RepeatOneOrMore t) c =
     (let splitDst1 = c_pc c
      in case emit t c of
           Inl e \<Rightarrow> Inl e
         | Inr c1 \<Rightarrow>
             if c_pc c1 < length (c_instr c1) then
               Inr ((setInstr c1 (c_pc c1)
                       (\<lambda>i. i\<lparr>opcode := OpSplit, ints0 := int splitDst1,
                               ints1 := int (c_pc c1) + 1\<rparr>))
                      \<lparr>c_pc := c_pc c1 + 1\<rparr>)
             else Inl IndexOutOfRange)"
| "emit (Rep RepeatZeroOrOne t) c =
     (if c_pc c < length (c_instr c) then
        let split = c_pc c;
            c1 = (setInstr c split (\<lambda>i. i\<lparr>opcode := OpSplit, ints0 := int (c_pc c) + 1\<rparr>))
                   \<lparr>c_pc := c_pc c + 1\<rparr>
        in case emit t c1 of
             Inl e \<Rightarrow> Inl e
           | Inr c2 \<Rightarrow> Inr (setInstr c2 split (\<lambda>i. i\<lparr>ints1 := int (c_pc c2)\<rparr>))
      else Inl IndexOutOfRange)"
| "emit (Rep RepeatUnset t) c = Inr c"
| "emit (Meta d ch) c =
     (if c_pc c < length (c_instr c) then
        emit ch ((setInstr c (c_pc c) (\<lambda>i. i\<lparr>opcode := OpMeta, intf := d\<rparr>))
                   \<lparr>c_pc := c_pc c + 1\<rparr>)
      else Inl IndexOutOfRange)"
| "emit Nil c = Inl UnknownNode"

definition compile :: "'m compiler \<Rightarrow> 'm node \<Rightarrow> panic + 'm compiler" where
  "compile c ptree =
     (if ptree = Nil then Inr c
      else case countinstrForProgram ptree of
             Inl e \<Rightarrow> Inl e
           | Inr n \<Rightarrow>
               (case emit ptree (c\<lparr>c_instr := replicate n zero_instr\<rparr>) of
                  Inl e \<Rightarrow> Inl e
                | Inr c1 \<Rightarrow> emitMatch c1))"

section \<open>The matching VM\<close>

text \<open>
  The thread lists hold pointers to threads in the source, and a thread is mutated in
  place before it is appended again. Every thread object has at most one entry that the
  loop of \<open>processWord\<close> has not passed yet: an entry is appended only while the
  entry before it is being processed, and a clone is a fresh object. So the lists hold
  thread values here. The field \<open>v.thread\<close> (the thread being run) is the argument
  \<open>t\<close> of \<open>continu\<close> and of the \<open>do\<close> functions.
\<close>

datatype listRef = CurrentThreads | NextThreads

definition appendThread :: "'m vm \<Rightarrow> listRef \<Rightarrow> 'm thread \<Rightarrow> 'm vm" where
  "appendThread v l t =
     (case l of
        CurrentThreads \<Rightarrow> v\<lparr>currentThreads := currentThreads v @ [t]\<rparr>
      | NextThreads \<Rightarrow> v\<lparr>nextThreads := nextThreads v @ [t]\<rparr>)"

definition addThread :: "'m vm \<Rightarrow> listRef \<Rightarrow> 'm thread \<Rightarrow> panic + 'm vm" where
  "addThread v l t =
     (if length (prog v) = 0 then Inr v
      else if pc t < 0 \<or> int (length (prog v)) \<le> pc t then Inl IndexOutOfRange
      else if gen (prog v ! nat (pc t)) = vm_gen v then Inr v
      else Inr (appendThread v l t))"

definition clone :: "'m thread \<Rightarrow> 'm thread" where
  "clone t = \<lparr>pc = pc t, items = items t, meta = meta t\<rparr>"

definition setPc :: "'m thread \<Rightarrow> int \<Rightarrow> 'm thread" where
  "setPc t p = t\<lparr>pc := p\<rparr>"

definition bind :: "'m thread \<Rightarrow> 'm instr \<Rightarrow> string \<Rightarrow> 'm thread" where
  "bind t i val = t\<lparr>items := items t @ [\<lparr>b_instr = i, b_val = val\<rparr>]\<rparr>"

text \<open>
  \<open>trace\<close> and \<open>traceBind\<close> return at once when no trace writer is set; otherwise they
  read \<open>v.input[v.wordIndex]\<close>, which panics out of range. What they print is not
  modelled.
\<close>

definition trace :: "'m vm \<Rightarrow> panic + unit" where
  "trace v =
     (if \<not> traceWriter v then Inr ()
      else if wordIndex v < length (input v) then Inr () else Inl IndexOutOfRange)"

definition traceBind :: "'m vm \<Rightarrow> panic + unit" where
  "traceBind v =
     (if \<not> traceWriter v then Inr ()
      else if wordIndex v < length (input v) then Inr () else Inl IndexOutOfRange)"

definition doJmp :: "'m vm \<Rightarrow> 'm thread \<Rightarrow> 'm instr \<Rightarrow> panic + 'm vm" where
  "doJmp v t i = addThread v CurrentThreads (t\<lparr>pc := ints0 i\<rparr>)"

definition doSplit :: "'m vm \<Rightarrow> 'm thread \<Rightarrow> 'm instr \<Rightarrow> panic + 'm vm" where
  "doSplit v t i =
     (let t2 = setPc (clone t) (ints1 i) in
      case addThread v CurrentThreads (t\<lparr>pc := ints0 i\<rparr>) of
        Inl e \<Rightarrow> Inl e
      | Inr v' \<Rightarrow> addThread v' CurrentThreads t2)"

definition doCmp :: "'m vm \<Rightarrow> 'm thread \<Rightarrow> 'm instr \<Rightarrow> string option \<Rightarrow> panic + 'm vm" where
  "doCmp v t i word =
     (case word of
        None \<Rightarrow> Inr v
      | Some w \<Rightarrow>
          if prefix w (strs0 i) then
            (case traceBind v of
               Inl e \<Rightarrow> Inl e
             | Inr _ \<Rightarrow> addThread v NextThreads ((bind t i w)\<lparr>pc := pc t + 1\<rparr>))
          else Inr v)"

definition doSave :: "'m vm \<Rightarrow> 'm thread \<Rightarrow> 'm instr \<Rightarrow> string option \<Rightarrow> panic + 'm vm" where
  "doSave v t i word =
     (case word of
        None \<Rightarrow> Inr v
      | Some w \<Rightarrow>
          (case traceBind v of
             Inl e \<Rightarrow> Inl e
           | Inr _ \<Rightarrow> addThread v NextThreads ((bind t i w)\<lparr>pc := pc t + 1\<rparr>)))"

definition doMeta :: "'m vm \<Rightarrow> 'm thread \<Rightarrow> 'm instr \<Rightarrow> panic + 'm vm" where
  "doMeta v t i = addThread v CurrentThreads (t\<lparr>meta := intf i, pc := pc t + 1\<rparr>)"

fun bindingItems :: "'m binding list \<Rightarrow> panic + item list" where
  "bindingItems [] = Inr []"
| "bindingItems (b # bs) =
     (case opcode (b_instr b) of
        OpCmp \<Rightarrow>
          (case bindingItems bs of
             Inl e \<Rightarrow> Inl e
           | Inr r \<Rightarrow> Inr (KeywordValue (strs0 (b_instr b)) (b_val b) # r))
      | OpSave \<Rightarrow>
          (case bindingItems bs of
             Inl e \<Rightarrow> Inl e
           | Inr r \<Rightarrow> Inr (VarValue (strs0 (b_instr b)) (strs1 (b_instr b)) (b_val b) # r))
      | _ \<Rightarrow> Inl UnsupportedOpcode)"

definition addMatch :: "'m vm \<Rightarrow> 'm thread \<Rightarrow> panic + 'm vm" where
  "addMatch v t =
     (case bindingItems (items t) of
        Inl e \<Rightarrow> Inl e
      | Inr its \<Rightarrow> Inr (v\<lparr>matches := matches v @ [\<lparr>match_items = its, match_meta = meta t\<rparr>]\<rparr>))"

definition continu :: "'m vm \<Rightarrow> 'm thread \<Rightarrow> string option \<Rightarrow> panic + 'm vm" where
  "continu v t word =
     (if pc t < 0 \<or> int (length (prog v)) \<le> pc t then Inl IndexOutOfRange
      else
        let i = prog v ! nat (pc t) in
        case trace v of
          Inl e \<Rightarrow> Inl e
        | Inr _ \<Rightarrow>
            (case opcode i of
               OpNop \<Rightarrow> Inr v
             | OpJmp \<Rightarrow> doJmp v t i
             | OpMatch \<Rightarrow> addMatch v t
             | OpSplit \<Rightarrow> doSplit v t i
             | OpCmp \<Rightarrow> doCmp v t i word
             | OpSave \<Rightarrow> doSave v t i word
             | OpMeta \<Rightarrow> doMeta v t i
             | OpUnknown \<Rightarrow> Inl UnknownInstruction))"

text \<open>
  The loop of \<open>processWord\<close> runs over a list that grows while it runs, and nothing in
  it bounds the growth: the result is \<open>None\<close> when the loop never ends.
\<close>

partial_function (option) runThreads ::
    "'m vm \<Rightarrow> nat \<Rightarrow> string option \<Rightarrow> (panic + 'm vm) option" where
  "runThreads v i word =
     (if i < length (currentThreads v) then
        (case continu v (currentThreads v ! i) word of
           Inl e \<Rightarrow> Some (Inl e)
         | Inr v' \<Rightarrow> runThreads v' (i + 1) word)
      else Some (Inr v))"

declare runThreads.simps [code]

definition swap :: "'m vm \<Rightarrow> 'm vm" where
  "swap v = v\<lparr>currentThreads := nextThreads v, nextThreads := currentThreads v\<rparr>"

definition clear :: "'m vm \<Rightarrow> 'm vm" where
  "clear v = v\<lparr>nextThreads := []\<rparr>"

definition processWord :: "'m vm \<Rightarrow> string option \<Rightarrow> (panic + 'm vm) option" where
  "processWord v word =
     (case runThreads (v\<lparr>vm_gen := vm_gen v + 1\<rparr>) 0 word of
        None \<Rightarrow> None
      | Some (Inl e) \<Rightarrow> Some (Inl e)
      | Some (Inr v') \<Rightarrow> Some (Inr (clear (swap v'))))"

definition finishThreads :: "'m vm \<Rightarrow> (panic + 'm vm) option" where
  "finishThreads v = processWord v None"

definition makeThreadLists :: "'m vm \<Rightarrow> 'm vm" where
  "makeThreadLists v = v\<lparr>currentThreads := [], nextThreads := []\<rparr>"

text \<open>The loop \<open>for v.wordIndex = range input\<close>, over the indices still to visit.\<close>

fun processWords :: "'m vm \<Rightarrow> nat list \<Rightarrow> (panic + 'm vm) option" where
  "processWords v [] = Some (Inr v)"
| "processWords v (i # is) =
     (case processWord (v\<lparr>wordIndex := i\<rparr>) (Some (input v ! i)) of
        None \<Rightarrow> None
      | Some (Inl e) \<Rightarrow> Some (Inl e)
      | Some (Inr v') \<Rightarrow> processWords v' is)"

definition execute :: "'m vm \<Rightarrow> 'm instr list \<Rightarrow> string list \<Rightarrow> (panic + 'm vm) option" where
  "execute v p inp =
     (let v1 = makeThreadLists (v\<lparr>prog := p, input := inp\<rparr>);
          v2 = v1\<lparr>matches := [], vm_gen := 1\<rparr>
      in case addThread v2 CurrentThreads \<lparr>pc = 0, items = [], meta = None\<rparr> of
           Inl e \<Rightarrow> Some (Inl e)
         | Inr v3 \<Rightarrow>
             (case processWords v3 [0..<length inp] of
                None \<Rightarrow> None
              | Some (Inl e) \<Rightarrow> Some (Inl e)
              | Some (Inr v4) \<Rightarrow>
                  (case processWord v4 None of
                     None \<Rightarrow> None
                   | Some (Inl e) \<Rightarrow> Some (Inl e)
                   | Some (Inr v5) \<Rightarrow> finishThreads v5)))"

text \<open>The zero value \<open>var v vm\<close>.\<close>

definition zero_vm :: "'m vm" where
  "zero_vm = \<lparr>prog = [], input = [], currentThreads = [], nextThreads = [], matches = [],
              vm_gen = 0, wordIndex = 0, traceWriter = False\<rparr>"

section \<open>Selection of matches\<close>

text \<open>First loop of \<open>vm.longestMatches\<close>: the pair \<open>(count, mlen)\<close>.\<close>

fun countLongest :: "'m match list \<Rightarrow> nat \<Rightarrow> nat \<Rightarrow> nat \<times> nat" where
  "countLongest [] count mlen = (count, mlen)"
| "countLongest (m # ms) count mlen =
     (if length (match_items m) > mlen then countLongest ms 1 (length (match_items m))
      else if length (match_items m) = mlen then countLongest ms (count + 1) mlen
      else countLongest ms count mlen)"

text \<open>
  Second loop: \<open>matches[i] = m; i++\<close> into the slice made with \<open>count\<close> zero matches.
  A write past the end of the slice panics.
\<close>

fun fillLongest :: "nat \<Rightarrow> 'm match list \<Rightarrow> 'm match list \<Rightarrow> nat \<Rightarrow> panic + 'm match list" where
  "fillLongest mlen [] arr i = Inr arr"
| "fillLongest mlen (m # ms) arr i =
     (if length (match_items m) = mlen then
        (if i < length arr then fillLongest mlen ms (arr[i := m]) (Suc i)
         else Inl IndexOutOfRange)
      else fillLongest mlen ms arr i)"

definition longestMatches :: "('m, 'a) vm_scheme \<Rightarrow> panic + 'm match list" where
  "longestMatches v =
     (case countLongest (matches v) 0 0 of
        (count, mlen) \<Rightarrow> fillLongest mlen (matches v) (replicate count zero_match) 0)"

definition maximalMatches :: "('m, 'a) vm_scheme \<Rightarrow> panic + 'm match list" where
  "maximalMatches v =
     (case longestMatches v of
        Inl e \<Rightarrow> Inl e
      | Inr m \<Rightarrow>
          (if length m > 0 \<and> length (match_items (m ! 0)) \<noteq> length (input v)
           then Inr [] else Inr m))"

text \<open>The largest binding-item count over the recorded matches (0 when there is none).\<close>

definition maxItems :: "'m match list \<Rightarrow> nat" where
  "maxItems ms = Max (insert 0 (set (map (\<lambda>m. length (match_items m)) ms)))"

section \<open>The user-input scanner\<close>

datatype scanState = Default | InWord | WaitingForTerminator

text \<open>
  \<open>cmdScanner\<close>: the field \<open>runes\<close> is the argument of \<open>innerTokenize\<close>; the buffer
  \<open>word\<close> is \<open>cs_word\<close> and the slice \<open>words\<close> is \<open>cs_words\<close>.
\<close>

record cmdScanner =
  cs_word :: string
  cs_words :: "string list"

definition zero_cmdScanner :: cmdScanner where
  "zero_cmdScanner = \<lparr>cs_word = [], cs_words = []\<rparr>"

definition addRuneToWord :: "cmdScanner \<Rightarrow> rune \<Rightarrow> cmdScanner" where
  "addRuneToWord t r = t\<lparr>cs_word := cs_word t @ encodeRune r\<rparr>"

definition wordIsEmpty :: "cmdScanner \<Rightarrow> bool" where
  "wordIsEmpty t \<longleftrightarrow> length (cs_word t) = 0"

definition addWord :: "cmdScanner \<Rightarrow> cmdScanner" where
  "addWord t = t\<lparr>cs_words := cs_words t @ [cs_word t], cs_word := []\<rparr>"

text \<open>The loop of \<open>innerTokenize\<close> over the runes, with the variables \<open>state\<close> and \<open>terminator\<close>.\<close>

fun tokenizeLoop :: "rune list \<Rightarrow> scanState \<Rightarrow> rune \<Rightarrow> cmdScanner \<Rightarrow> cmdScanner" where
  "tokenizeLoop [] state terminator t = t"
| "tokenizeLoop (r # rs) state terminator t =
     (case state of
        Default \<Rightarrow>
          if \<not> IsSpace r then
            (if r = 0x22 then tokenizeLoop rs WaitingForTerminator 0x22 t
             else tokenizeLoop rs InWord terminator (addRuneToWord t r))
          else tokenizeLoop rs Default terminator t
      | InWord \<Rightarrow>
          if IsSpace r then tokenizeLoop rs Default terminator (addWord t)
          else tokenizeLoop rs InWord terminator (addRuneToWord t r)
      | WaitingForTerminator \<Rightarrow>
          if r = terminator then tokenizeLoop rs Default terminator (addWord t)
          else tokenizeLoop rs WaitingForTerminator terminator (addRuneToWord t r))"

definition innerTokenize :: "rune list \<Rightarrow> cmdScanner \<Rightarrow> cmdScanner" where
  "innerTokenize runes t =
     (let t' = tokenizeLoop runes Default 0 t
      in if \<not> wordIsEmpty t' then addWord t' else t')"

text \<open>
  \<open>cmdScanner.Scan\<close> on the zero scanner that \<open>Cmds.Parse\<close> declares. Its argument is the
  rune sequence \<open>[]rune(command)\<close> of the command.
\<close>

definition cmdScan :: "rune list \<Rightarrow> string list" where
  "cmdScan command = cs_words (innerTokenize command zero_cmdScanner)"

section \<open>The registration and dispatch facade\<close>

text \<open>The fields \<open>prog\<close> and \<open>trace\<close> of \<open>Cmds\<close> are \<open>cmds_prog\<close> and \<open>cmds_trace\<close>.\<close>

record 'm Cmds =
  parseTree :: "'m node"
  cmds_prog :: "'m instr list"
  cmds_trace :: bool

definition zero_Cmds :: "'m Cmds" where
  "zero_Cmds = \<lparr>parseTree = Nil, cmds_prog = [], cmds_trace = False\<rparr>"

definition addParseTree :: "'m Cmds \<Rightarrow> 'm node \<Rightarrow> 'm \<Rightarrow> 'm Cmds" where
  "addParseTree c tree cback =
     (let m = Meta (Some cback) tree
      in if parseTree c = Nil then c\<lparr>parseTree := m\<rparr>
         else c\<lparr>parseTree := Alts m (parseTree c)\<rparr>)"

text \<open>
  \<open>Cmds.scanAndParse\<close> and \<open>Cmds.Add\<close>. The error they return is \<open>None\<close> when nil and
  the list of the messages otherwise.
\<close>

definition scanAndParse ::
    "(rune \<Rightarrow> bool) \<Rightarrow> (rune \<Rightarrow> bool) \<Rightarrow> nat \<Rightarrow> rune list \<Rightarrow>
     (panic + 'm node \<times> string list option) option" where
  "scanAndParse L D fuel cmd =
     (case scanner_Scan L D zero_scanner cmd of
        Inl e \<Rightarrow> Some (Inl e)
      | Inr ((tokens, ok), s) \<Rightarrow>
          if \<not> ok then Some (Inr (Nil, Some (s_errs s)))
          else
            fbind (parser_Parse fuel zero_parser tokens) (\<lambda>((tree, errs), p).
              Some (Inr (tree, if length errs = 0 then None else Some errs))))"

definition Add ::
    "(rune \<Rightarrow> bool) \<Rightarrow> (rune \<Rightarrow> bool) \<Rightarrow> nat \<Rightarrow> 'm Cmds \<Rightarrow> rune list \<Rightarrow> 'm \<Rightarrow>
     (panic + string list option \<times> 'm Cmds) option" where
  "Add L D fuel c cmd cback =
     fbind (scanAndParse L D fuel cmd) (\<lambda>(t, err).
       if err \<noteq> None then Some (Inr (err, c))
       else Some (Inr (None, addParseTree c t cback)))"

definition Compile :: "'m Cmds \<Rightarrow> panic + 'm Cmds" where
  "Compile c =
     (case compile zero_compiler (parseTree c) of
        Inl e \<Rightarrow> Inl e
      | Inr cmp \<Rightarrow> Inr (c\<lparr>cmds_prog := c_instr cmp\<rparr>))"

definition TraceExecutionTo :: "'m Cmds \<Rightarrow> bool \<Rightarrow> 'm Cmds" where
  "TraceExecutionTo c w = c\<lparr>cmds_trace := w\<rparr>"

text \<open>
  \<open>Cmds.Parse\<close> returns \<open>ok\<close>; the model returns with it the list of the calls of a
  callback that \<open>Parse\<close> makes, each with the match and the context it passes. The
  callback itself is not run. \<open>mm.meta.(Callback)\<close> panics on a nil payload.
\<close>

definition Parse ::
    "'m Cmds \<Rightarrow> rune list \<Rightarrow> 'c \<Rightarrow> (panic + bool \<times> ('m \<times> 'm match \<times> 'c) list) option" where
  "Parse c cmd ctx =
     (let toks = cmdScan cmd
      in case execute (zero_vm\<lparr>traceWriter := cmds_trace c\<rparr>) (cmds_prog c) toks of
           None \<Rightarrow> None
         | Some (Inl e) \<Rightarrow> Some (Inl e)
         | Some (Inr v) \<Rightarrow>
             (case maximalMatches v of
                Inl e \<Rightarrow> Some (Inl e)
              | Inr ms \<Rightarrow>
                  if length ms \<noteq> 1 then Some (Inr (False, []))
                  else
                    let mm = ms ! 0
                    in case match_meta mm of
                         None \<Rightarrow> Some (Inl TypeAssertion)
                       | Some cback \<Rightarrow> Some (Inr (True, [(cback, mm, ctx)]))))"

section \<open>Auxiliary notions for the compiler's properties\<close>

text \<open>
  The trees of the specification's data model: built from the six node kinds, with one of
  the three repetition operators, and no nil sub-tree.
\<close>

fun wellFormed :: "'m node \<Rightarrow> bool" where
  "wellFormed Nil = False"
| "wellFormed (Word w) = True"
| "wellFormed (Variable n t) = True"
| "wellFormed (Alts l r) = (wellFormed l \<and> wellFormed r)"
| "wellFormed (Terms l r) = (wellFormed l \<and> wellFormed r)"
| "wellFormed (Rep op t) = (op \<noteq> RepeatUnset \<and> wellFormed t)"
| "wellFormed (Meta d t) = wellFormed t"

text \<open>The instruction count as the specification tabulates it, node by node.\<close>

fun count_spec :: "'m node \<Rightarrow> nat" where
  "count_spec (Word w) = 1"
| "count_spec (Variable n t) = 1"
| "count_spec (Alts l r) = 2 + count_spec l + count_spec r"
| "count_spec (Terms l r) = count_spec l + count_spec r"
| "count_spec (Rep RepeatZeroOrMore t) = 2 + count_spec t"
| "count_spec (Rep RepeatOneOrMore t) = 1 + count_spec t"
| "count_spec (Rep RepeatZeroOrOne t) = 1 + count_spec t"
| "count_spec (Meta d t) = 1 + count_spec t"
| "count_spec (Rep RepeatUnset t) = 0"
| "count_spec Nil = 0"

text \<open>The opcodes that \<open>emit\<close> writes; \<open>OpMatch\<close> is written by \<open>emitMatch\<close> only.\<close>

definition bodyOps :: "opcode set" where
  "bodyOps = {OpSplit, OpJmp, OpCmp, OpSave, OpMeta}"

text \<open>
  \<open>emitted c n c'\<close>: from \<open>c\<close> to \<open>c'\<close> the cursor has advanced by \<open>n\<close>, the \<open>n\<close> slots
  passed hold body opcodes, every other slot and every \<open>gen\<close> field is unchanged.
\<close>

definition emitted :: "'m compiler \<Rightarrow> nat \<Rightarrow> 'm compiler \<Rightarrow> bool" where
  "emitted c n c' \<longleftrightarrow>
     c_pc c' = c_pc c + n \<and>
     length (c_instr c') = length (c_instr c) \<and>
     c_pc c + n \<le> length (c_instr c) \<and>
     (\<forall>i. i < c_pc c \<or> c_pc c + n \<le> i \<longrightarrow> c_instr c' ! i = c_instr c ! i) \<and>
     (\<forall>i. c_pc c \<le> i \<and> i < c_pc c + n \<longrightarrow> opcode (c_instr c' ! i) \<in> bodyOps) \<and>
     (\<forall>i. gen (c_instr c' ! i) = gen (c_instr c ! i))"

section \<open>Auxiliary notions for the user-input scanner's properties\<close>

text \<open>The words that \<open>innerTokenize\<close> returns when its loop ends in the scanner \<open>t\<close>.\<close>

definition finish :: "cmdScanner \<Rightarrow> string list" where
  "finish t = cs_words (if \<not> wordIsEmpty t then addWord t else t)"

section \<open>Two programs used as test inputs\<close>

text \<open>
  \<open>loopProg cb\<close> is the program that \<open>Compile\<close> builds after \<open>Add("(a*)*", cb)\<close>, and
  \<open>optProg cb\<close> the one after \<open>Add("(a?)?", cb)\<close>; the properties below prove that
  \<open>compile\<close> returns them.
\<close>

definition loopProg :: "'m \<Rightarrow> 'm instr list" where
  "loopProg cb =
     [zero_instr\<lparr>opcode := OpMeta, intf := Some cb\<rparr>,
      zero_instr\<lparr>opcode := OpSplit, ints0 := 2, ints1 := 6\<rparr>,
      zero_instr\<lparr>opcode := OpSplit, ints0 := 3, ints1 := 5\<rparr>,
      zero_instr\<lparr>opcode := OpCmp, strs0 := ''a''\<rparr>,
      zero_instr\<lparr>opcode := OpJmp, ints0 := 2\<rparr>,
      zero_instr\<lparr>opcode := OpJmp, ints0 := 1\<rparr>,
      zero_instr\<lparr>opcode := OpMatch\<rparr>]"

definition optProg :: "'m \<Rightarrow> 'm instr list" where
  "optProg cb =
     [zero_instr\<lparr>opcode := OpMeta, intf := Some cb\<rparr>,
      zero_instr\<lparr>opcode := OpSplit, ints0 := 2, ints1 := 4\<rparr>,
      zero_instr\<lparr>opcode := OpSplit, ints0 := 3, ints1 := 4\<rparr>,
      zero_instr\<lparr>opcode := OpCmp, strs0 := ''a''\<rparr>,
      zero_instr\<lparr>opcode := OpMatch\<rparr>]"

text \<open>
  The invariant of the loop of \<open>processWord\<close> on \<open>loopProg\<close>: a thread that the loop
  has not reached yet stands on the cycle of the program.
\<close>

definition loopInv :: "'m \<Rightarrow> 'm vm \<Rightarrow> nat \<Rightarrow> bool" where
  "loopInv cb v i \<longleftrightarrow>
     prog v = loopProg cb \<and> vm_gen v \<noteq> 0 \<and> \<not> traceWriter v \<and>
     (\<forall>t\<in>set (currentThreads v). 0 \<le> pc t \<and> pc t < 7 \<and>
          (\<forall>b\<in>set (items t). opcode (b_instr b) = OpCmp)) \<and>
     (\<exists>j. i \<le> j \<and> j < length (currentThreads v) \<and> pc (currentThreads v ! j) \<in> {0, 1, 2, 5})"

section \<open>Auxiliary notions for the dispatcher's properties\<close>

text \<open>\<open>metaSet t\<close>: every \<open>Meta\<close> node of \<open>t\<close> carries a payload.\<close>

fun metaSet :: "'m node \<Rightarrow> bool" where
  "metaSet Nil = True"
| "metaSet (Word w) = True"
| "metaSet (Variable n t) = True"
| "metaSet (Alts l r) = (metaSet l \<and> metaSet r)"
| "metaSet (Terms l r) = (metaSet l \<and> metaSet r)"
| "metaSet (Rep op t) = metaSet t"
| "metaSet (Meta d t) = (d \<noteq> None \<and> metaSet t)"

text \<open>
  The parse trees that \<open>addParseTree\<close> builds from the empty command set: nil, one
  \<open>Meta\<close> with a callback, or an \<open>Alts\<close> of such a \<open>Meta\<close> and an earlier such tree.
\<close>

fun registered :: "'m node \<Rightarrow> bool" where
  "registered Nil = True"
| "registered (Meta d t) = (d \<noteq> None \<and> metaSet t)"
| "registered (Alts (Meta d t) r) = (d \<noteq> None \<and> metaSet t \<and> r \<noteq> Nil \<and> registered r)"
| "registered t = False"





section \<open>Properties of the selection of matches\<close>

lemma countLongest_eq:
  "countLongest ms c l =
     (let M = Max (insert l (set (map (\<lambda>m. length (match_items m)) ms))) in
      (if M > l then length (filter (\<lambda>m. length (match_items m) = M) ms)
       else c + length (filter (\<lambda>m. length (match_items m) = l) ms), M))"
proof (induction ms arbitrary: c l)
  case Nil
  then show ?case by simp
next
  case (Cons m ms)
  define a where "a = length (match_items m)"
  define S where "S = set (map (\<lambda>m. length (match_items m)) ms)"
  have fin: "finite S" by (simp add: S_def)
  define M1 where "M1 = Max (insert a S)"
  define M2 where "M2 = Max (insert l S)"
  define M where "M = Max (insert l (insert a S))"
  have M1: "a \<le> M1" unfolding M1_def using fin by (intro Max_ge) auto
  have M2: "l \<le> M2" unfolding M2_def using fin by (intro Max_ge) auto
  have Ma: "M = max l M1" unfolding M_def M1_def using fin by (intro Max_insert) auto
  have Mb: "M = max a M2" unfolding M_def M2_def insert_commute[of l a]
    using fin by (intro Max_insert) auto
  have ih1: "countLongest ms 1 a =
      (if M1 > a then length (filter (\<lambda>m. length (match_items m) = M1) ms)
       else 1 + length (filter (\<lambda>m. length (match_items m) = a) ms), M1)"
    using Cons.IH[of 1 a] by (simp only: Let_def M1_def S_def)
  have ih2: "\<And>c. countLongest ms c l =
      (if M2 > l then length (filter (\<lambda>m. length (match_items m) = M2) ms)
       else c + length (filter (\<lambda>m. length (match_items m) = l) ms), M2)"
    using Cons.IH[of _ l] by (simp only: Let_def M2_def S_def)
  have goal: "countLongest (m # ms) c l =
      (if M > l then length (filter (\<lambda>m. length (match_items m) = M) (m # ms))
       else c + length (filter (\<lambda>m. length (match_items m) = l) (m # ms)), M)"
  proof (cases "a > l")
    case True
    with M1 Ma have "M = M1" by (simp add: max_def)
    with True M1 ih1 show ?thesis by (auto simp: a_def[symmetric])
  next
    case False
    with M2 Mb have "M = M2" by (simp add: max_def)
    with False M2 ih2 show ?thesis by (auto simp: a_def[symmetric])
  qed
  have "set (map (\<lambda>m. length (match_items m)) (m # ms)) = insert a S"
    by (simp add: a_def S_def)
  with goal show ?case by (simp only: Let_def M_def)
qed

lemma fillLongest_eq:
  "i + length (filter (\<lambda>m. length (match_items m) = mlen) ms) \<le> length arr \<Longrightarrow>
   fillLongest mlen ms arr i =
     Inr (take i arr @ filter (\<lambda>m. length (match_items m) = mlen) ms
          @ drop (i + length (filter (\<lambda>m. length (match_items m) = mlen) ms)) arr)"
proof (induction ms arbitrary: arr i)
  case Nil
  then show ?case by simp
next
  case (Cons m ms)
  show ?case
  proof (cases "length (match_items m) = mlen")
    case True
    with Cons.prems have i: "i < length arr" by simp
    have "take (Suc i) (arr[i := m]) = take i arr @ [m]"
      using i by (simp add: take_Suc_conv_app_nth)
    with True Cons.prems i Cons.IH[of "Suc i" "arr[i := m]"] show ?thesis by simp
  next
    case False
    with Cons show ?thesis by simp
  qed
qed

lemma longestMatches_eq:
  "longestMatches v =
     Inr (filter (\<lambda>m. length (match_items m) = maxItems (matches v)) (matches v))"
proof -
  let ?ms = "matches v"
  let ?M = "maxItems ?ms"
  let ?L = "filter (\<lambda>m. length (match_items m) = ?M) ?ms"
  have c: "countLongest ?ms 0 0 = (length ?L, ?M)"
    by (simp add: countLongest_eq maxItems_def Let_def)
  show ?thesis
    unfolding longestMatches_def c
    by (simp add: fillLongest_eq)
qed

lemma maxItems_hd:
  "filter (\<lambda>m. length (match_items m) = M) ms \<noteq> [] \<Longrightarrow>
   length (match_items (filter (\<lambda>m. length (match_items m) = M) ms ! 0)) = M"
proof -
  assume a: "filter (\<lambda>m. length (match_items m) = M) ms \<noteq> []"
  then have "filter (\<lambda>m. length (match_items m) = M) ms ! 0 \<in> set (filter (\<lambda>m. length (match_items m) = M) ms)"
    by (simp add: nth_mem del: set_filter)
  then show ?thesis by simp
qed

lemma maximalMatches_eq:
  "maximalMatches v =
     Inr (if maxItems (matches v) = length (input v)
          then filter (\<lambda>m. length (match_items m) = maxItems (matches v)) (matches v)
          else [])"
proof (cases "filter (\<lambda>m. length (match_items m) = maxItems (matches v)) (matches v) = []")
  case True
  have "longestMatches v = Inr []" using True by (simp only: longestMatches_eq)
  then have "maximalMatches v = Inr []" by (simp add: maximalMatches_def)
  with True show ?thesis by (simp only: if_cancel)
next
  case False
  from maxItems_hd[OF False] False show ?thesis
    by (simp add: maximalMatches_def longestMatches_eq)
qed

text \<open>
  Claim C4. \<open>longestMatches\<close> returns, in the order of insertion, exactly the recorded
  matches whose number of items is the largest number of items of a recorded match;
  \<open>maximalMatches\<close> returns that list when this largest number is the number of input
  words, and the empty list otherwise.
\<close>

theorem longest_and_maximal_matches:
  "longestMatches v =
     Inr (filter (\<lambda>m. length (match_items m) = maxItems (matches v)) (matches v)) \<and>
   maximalMatches v =
     Inr (if maxItems (matches v) = length (input v)
          then filter (\<lambda>m. length (match_items m) = maxItems (matches v)) (matches v)
          else [])"
  using longestMatches_eq[of v] maximalMatches_eq[of v] by simp

section \<open>Properties of the compiler\<close>

lemma emitted_refl: "c_pc c \<le> length (c_instr c) \<Longrightarrow> emitted c 0 c"
  by (auto simp: emitted_def)

lemma emitted_step:
  assumes "c_pc c < length (c_instr c)"
    and "\<And>x. opcode (f x) \<in> bodyOps" and "\<And>x. gen (f x) = gen x"
  shows "emitted c 1 ((setInstr c (c_pc c) f)\<lparr>c_pc := c_pc c + 1\<rparr>)"
  using assms by (auto simp: emitted_def setInstr_def nth_list_update)

lemma emitted_trans:
  assumes "emitted c n c1" and "emitted c1 m c2"
  shows "emitted c (n + m) c2"
proof -
  have a: "\<forall>i. i < c_pc c \<or> c_pc c + (n + m) \<le> i \<longrightarrow> c_instr c2 ! i = c_instr c ! i"
  proof (intro allI impI)
    fix i assume "i < c_pc c \<or> c_pc c + (n + m) \<le> i"
    then have i: "(i < c_pc c1 \<or> c_pc c1 + m \<le> i) \<and> (i < c_pc c \<or> c_pc c + n \<le> i)"
      using assms by (auto simp: emitted_def)
    from assms(2) have "\<forall>i. i < c_pc c1 \<or> c_pc c1 + m \<le> i \<longrightarrow> c_instr c2 ! i = c_instr c1 ! i"
      unfolding emitted_def by blast
    with i have "c_instr c2 ! i = c_instr c1 ! i" by blast
    moreover from assms(1) have "\<forall>i. i < c_pc c \<or> c_pc c + n \<le> i \<longrightarrow> c_instr c1 ! i = c_instr c ! i"
      unfolding emitted_def by blast
    with i have "c_instr c1 ! i = c_instr c ! i" by blast
    ultimately show "c_instr c2 ! i = c_instr c ! i" by simp
  qed
  have b: "\<forall>i. c_pc c \<le> i \<and> i < c_pc c + (n + m) \<longrightarrow> opcode (c_instr c2 ! i) \<in> bodyOps"
  proof (intro allI impI)
    fix i assume i: "c_pc c \<le> i \<and> i < c_pc c + (n + m)"
    show "opcode (c_instr c2 ! i) \<in> bodyOps"
    proof (cases "i < c_pc c + n")
      case True
      then have "c_instr c2 ! i = c_instr c1 ! i" using assms by (simp add: emitted_def)
      with True i assms(1) show ?thesis by (simp add: emitted_def)
    next
      case False
      with i assms show ?thesis by (simp add: emitted_def)
    qed
  qed
  from assms a b show ?thesis by (simp add: emitted_def add.assoc)
qed

lemma emitted_patch:
  assumes "emitted c n c'" and "c_pc c \<le> i" and "i < c_pc c + n"
    and "\<And>x. opcode (f x) = opcode x" and "\<And>x. gen (f x) = gen x"
  shows "emitted c n (setInstr c' i f)"
  using assms by (auto simp: emitted_def setInstr_def nth_list_update)

lemma emit_emitted:
  "countinstr t = Inr n \<Longrightarrow> c_pc c + n \<le> length (c_instr c) \<Longrightarrow>
   \<exists>c'. emit t c = Inr c' \<and> emitted c n c'"
proof (induction t arbitrary: c n)
  case Nil
  then show ?case by simp
next
  case (Word w)
  then have n: "n = 1" and lt: "c_pc c < length (c_instr c)" by auto
  from emitted_step[OF lt, of "\<lambda>i. i\<lparr>opcode := OpCmp, strs0 := w\<rparr>"] lt show ?case
    unfolding n by (simp add: emitWord_def bodyOps_def)
next
  case (Variable x1 x2)
  then have n: "n = 1" and lt: "c_pc c < length (c_instr c)" by auto
  from emitted_step[OF lt, of "\<lambda>i. i\<lparr>opcode := OpSave, strs0 := x1, strs1 := x2\<rparr>"] lt
  show ?case unfolding n by (simp add: emitVar_def bodyOps_def)
next
  case (Alts l r)
  from Alts.prems obtain a b where a: "countinstr l = Inr a" and b: "countinstr r = Inr b"
    and n: "n = 2 + a + b" by (auto split: sum.splits)
  define split where "split = c_pc c"
  define c1 where "c1 = (setInstr c split (\<lambda>i. i\<lparr>opcode := OpSplit, ints0 := int (c_pc c) + 1\<rparr>))\<lparr>c_pc := c_pc c + 1\<rparr>"
  have lt: "c_pc c < length (c_instr c)" using Alts.prems n by simp
  have e1: "emitted c 1 c1" unfolding c1_def split_def
    by (rule emitted_step[OF lt]) (simp_all add: bodyOps_def)
  then have "c_pc c1 + a \<le> length (c_instr c1)" using Alts.prems n by (simp add: emitted_def)
  from Alts.IH(1)[OF a this] obtain c2 where c2: "emit l c1 = Inr c2" and e2: "emitted c1 a c2" by blast
  define jmp where "jmp = c_pc c2"
  define c3 where "c3 = (setInstr c2 jmp (\<lambda>i. i\<lparr>opcode := OpJmp\<rparr>))\<lparr>c_pc := c_pc c2 + 1\<rparr>"
  define c4 where "c4 = setInstr c3 split (\<lambda>i. i\<lparr>ints1 := int (c_pc c3)\<rparr>)"
  have e12: "emitted c (1 + a) c2" by (rule emitted_trans[OF e1 e2])
  have lt2: "c_pc c2 < length (c_instr c2)" using e12 Alts.prems n by (simp add: emitted_def)
  have e3: "emitted c2 1 c3" unfolding c3_def jmp_def
    by (rule emitted_step[OF lt2]) (simp_all add: bodyOps_def)
  have e123: "emitted c (1 + a + 1) c3" by (rule emitted_trans[OF e12 e3])
  have e4: "emitted c (1 + a + 1) c4" unfolding c4_def
    by (rule emitted_patch[OF e123]) (simp_all add: split_def)
  then have "c_pc c4 + b \<le> length (c_instr c4)" using Alts.prems n by (simp add: emitted_def)
  from Alts.IH(2)[OF b this] obtain c5 where c5: "emit r c4 = Inr c5" and e5: "emitted c4 b c5" by blast
  have e45: "emitted c (1 + a + 1 + b) c5" by (rule emitted_trans[OF e4 e5])
  have "emitted c (1 + a + 1 + b) (setInstr c5 jmp (\<lambda>i. i\<lparr>ints0 := int (c_pc c5)\<rparr>))"
    by (rule emitted_patch[OF e45]) (use e12 in \<open>simp_all add: jmp_def emitted_def\<close>)
  moreover have "emit (Alts l r) c = Inr (setInstr c5 jmp (\<lambda>i. i\<lparr>ints0 := int (c_pc c5)\<rparr>))"
    using lt c2 lt2 c5 unfolding c4_def c3_def jmp_def c1_def split_def by (simp add: Let_def)
  ultimately show ?case using n by (simp add: add.commute add.left_commute)
next
  case (Terms l r)
  from Terms.prems obtain a b where a: "countinstr l = Inr a" and b: "countinstr r = Inr b"
    and n: "n = a + b" by (auto split: sum.splits)
  have "c_pc c + a \<le> length (c_instr c)" using Terms.prems n by simp
  from Terms.IH(1)[OF a this] obtain c1 where c1: "emit l c = Inr c1" and e1: "emitted c a c1" by blast
  then have "c_pc c1 + b \<le> length (c_instr c1)" using Terms.prems n by (simp add: emitted_def)
  from Terms.IH(2)[OF b this] obtain c2 where c2: "emit r c1 = Inr c2" and e2: "emitted c1 b c2" by blast
  from emitted_trans[OF e1 e2] c1 c2 n show ?case by simp
next
  case (Rep op t)
  show ?case
  proof (cases op)
    case RepeatUnset
    with Rep.prems show ?thesis by (simp add: emitted_refl)
  next
    case RepeatZeroOrMore
    with Rep.prems obtain a where a: "countinstr t = Inr a" and n: "n = 2 + a"
      by (auto split: sum.splits)
    define splitNdx where "splitNdx = c_pc c"
    define c1 where "c1 = (setInstr c splitNdx (\<lambda>i. i\<lparr>opcode := OpSplit, ints0 := int (c_pc c) + 1\<rparr>))\<lparr>c_pc := c_pc c + 1\<rparr>"
    have lt: "c_pc c < length (c_instr c)" using Rep.prems n by simp
    have e1: "emitted c 1 c1" unfolding c1_def splitNdx_def
      by (rule emitted_step[OF lt]) (simp_all add: bodyOps_def)
    then have "c_pc c1 + a \<le> length (c_instr c1)" using Rep.prems n by (simp add: emitted_def)
    from Rep.IH[OF a this] obtain c2 where c2: "emit t c1 = Inr c2" and e2: "emitted c1 a c2" by blast
    define c3 where "c3 = (setInstr c2 (c_pc c2) (\<lambda>i. i\<lparr>opcode := OpJmp, ints0 := int splitNdx\<rparr>))\<lparr>c_pc := c_pc c2 + 1\<rparr>"
    have e12: "emitted c (1 + a) c2" by (rule emitted_trans[OF e1 e2])
    have lt2: "c_pc c2 < length (c_instr c2)" using e12 Rep.prems n by (simp add: emitted_def)
    have e3: "emitted c2 1 c3" unfolding c3_def
      by (rule emitted_step[OF lt2]) (simp_all add: bodyOps_def)
    have e123: "emitted c (1 + a + 1) c3" by (rule emitted_trans[OF e12 e3])
    have "emitted c (1 + a + 1) (setInstr c3 splitNdx (\<lambda>i. i\<lparr>ints1 := int (c_pc c3)\<rparr>))"
      by (rule emitted_patch[OF e123]) (simp_all add: splitNdx_def)
    moreover have "emit (Rep op t) c = Inr (setInstr c3 splitNdx (\<lambda>i. i\<lparr>ints1 := int (c_pc c3)\<rparr>))"
      using lt c2 lt2 RepeatZeroOrMore unfolding c3_def c1_def splitNdx_def
      by (simp add: Let_def)
    ultimately show ?thesis using n by (simp add: add.commute)
  next
    case RepeatOneOrMore
    with Rep.prems obtain a where a: "countinstr t = Inr a" and n: "n = a + 1"
      by (auto split: sum.splits)
    have "c_pc c + a \<le> length (c_instr c)" using Rep.prems n by simp
    from Rep.IH[OF a this] obtain c1 where c1: "emit t c = Inr c1" and e1: "emitted c a c1" by blast
    have lt: "c_pc c1 < length (c_instr c1)" using e1 Rep.prems n by (simp add: emitted_def)
    define c2 where "c2 = (setInstr c1 (c_pc c1) (\<lambda>i. i\<lparr>opcode := OpSplit, ints0 := int (c_pc c), ints1 := int (c_pc c1) + 1\<rparr>))\<lparr>c_pc := c_pc c1 + 1\<rparr>"
    have e2: "emitted c1 1 c2" unfolding c2_def
      by (rule emitted_step[OF lt]) (simp_all add: bodyOps_def)
    have "emit (Rep op t) c = Inr c2" using c1 lt RepeatOneOrMore by (simp add: Let_def c2_def)
    with emitted_trans[OF e1 e2] n show ?thesis by simp
  next
    case RepeatZeroOrOne
    with Rep.prems obtain a where a: "countinstr t = Inr a" and n: "n = 1 + a"
      by (auto split: sum.splits)
    define split where "split = c_pc c"
    define c1 where "c1 = (setInstr c split (\<lambda>i. i\<lparr>opcode := OpSplit, ints0 := int (c_pc c) + 1\<rparr>))\<lparr>c_pc := c_pc c + 1\<rparr>"
    have lt: "c_pc c < length (c_instr c)" using Rep.prems n by simp
    have e1: "emitted c 1 c1" unfolding c1_def split_def
      by (rule emitted_step[OF lt]) (simp_all add: bodyOps_def)
    then have "c_pc c1 + a \<le> length (c_instr c1)" using Rep.prems n by (simp add: emitted_def)
    from Rep.IH[OF a this] obtain c2 where c2: "emit t c1 = Inr c2" and e2: "emitted c1 a c2" by blast
    have e12: "emitted c (1 + a) c2" by (rule emitted_trans[OF e1 e2])
    have "emitted c (1 + a) (setInstr c2 split (\<lambda>i. i\<lparr>ints1 := int (c_pc c2)\<rparr>))"
      by (rule emitted_patch[OF e12]) (simp_all add: split_def)
    moreover have "emit (Rep op t) c = Inr (setInstr c2 split (\<lambda>i. i\<lparr>ints1 := int (c_pc c2)\<rparr>))"
      using lt c2 RepeatZeroOrOne unfolding c1_def split_def by (simp add: Let_def)
    ultimately show ?thesis using n by simp
  qed
next
  case (Meta d ch)
  from Meta.prems obtain a where a: "countinstr ch = Inr a" and n: "n = 1 + a"
    by (auto split: sum.splits)
  define c1 where "c1 = (setInstr c (c_pc c) (\<lambda>i. i\<lparr>opcode := OpMeta, intf := d\<rparr>))\<lparr>c_pc := c_pc c + 1\<rparr>"
  have lt: "c_pc c < length (c_instr c)" using Meta.prems n by simp
  have e1: "emitted c 1 c1" unfolding c1_def
    by (rule emitted_step[OF lt]) (simp_all add: bodyOps_def)
  then have "c_pc c1 + a \<le> length (c_instr c1)" using Meta.prems n by (simp add: emitted_def)
  from Meta.IH[OF a this] obtain c2 where c2: "emit ch c1 = Inr c2" and e2: "emitted c1 a c2" by blast
  have "emit (Meta d ch) c = Inr c2" using lt c2 by (simp add: c1_def)
  with emitted_trans[OF e1 e2] n show ?case by simp
qed


lemma countinstr_count_spec: "wellFormed t \<Longrightarrow> countinstr t = Inr (count_spec t)"
proof (induction t)
  case (Rep op t)
  then show ?case by (cases op) simp_all
qed simp_all

lemma compile_emitted:
  assumes "countinstr t = Inr n"
  shows "\<exists>c1 c. emit t (zero_compiler\<lparr>c_instr := replicate (n + 1) zero_instr\<rparr>) = Inr c1 \<and>
           emitted (zero_compiler\<lparr>c_instr := replicate (n + 1) zero_instr\<rparr>) n c1 \<and>
           compile zero_compiler t = Inr c \<and>
           c = (setInstr c1 n (\<lambda>i. i\<lparr>opcode := OpMatch\<rparr>))\<lparr>c_pc := n + 1\<rparr>"
proof -
  let ?c0 = "zero_compiler\<lparr>c_instr := replicate (n + 1) zero_instr\<rparr> :: 'a compiler"
  have "c_pc ?c0 + n \<le> length (c_instr ?c0)" by (simp add: zero_compiler_def)
  from emit_emitted[OF assms this] obtain c1 where c1: "emit t ?c0 = Inr c1"
    and e: "emitted ?c0 n c1" by blast
  from e have pc: "c_pc c1 = n" and len: "length (c_instr c1) = n + 1"
    by (simp_all add: emitted_def zero_compiler_def)
  from assms have "t \<noteq> Nil" by auto
  then have "compile zero_compiler t = Inr ((setInstr c1 n (\<lambda>i. i\<lparr>opcode := OpMatch\<rparr>))\<lparr>c_pc := n + 1\<rparr>)"
    using assms c1 pc len by (simp add: compile_def countinstrForProgram_def emitMatch_def)
  with c1 e show ?thesis by blast
qed

text \<open>
  Claim C6. For every tree \<open>T\<close> of the data model, \<open>countinstr\<close> returns the count the
  specification tabulates; the emit pass on the program of \<open>count + 1\<close> zero instructions
  ends with the cursor at \<open>count\<close>; \<open>compile\<close> returns a program of \<open>count + 1\<close>
  instructions whose last one is \<open>OpMatch\<close> and whose other ones are body opcodes, so
  the trailing \<open>OpMatch\<close> is the only one.
\<close>

theorem compile_count_plus_match:
  assumes "wellFormed T"
  shows "countinstr T = Inr (count_spec T) \<and>
         (\<exists>c1 c. emit T (zero_compiler\<lparr>c_instr := replicate (count_spec T + 1) zero_instr\<rparr>) = Inr c1 \<and>
            c_pc c1 = count_spec T \<and>
            compile zero_compiler T = Inr c \<and>
            length (c_instr c) = count_spec T + 1 \<and>
            opcode (c_instr c ! count_spec T) = OpMatch \<and>
            (\<forall>i < count_spec T. opcode (c_instr c ! i) \<in> bodyOps))"
proof -
  let ?n = "count_spec T"
  have n: "countinstr T = Inr ?n" by (rule countinstr_count_spec[OF assms])
  from compile_emitted[OF n] obtain c1 c where
    c1: "emit T (zero_compiler\<lparr>c_instr := replicate (?n + 1) zero_instr\<rparr>) = Inr c1"
    and e: "emitted (zero_compiler\<lparr>c_instr := replicate (?n + 1) zero_instr\<rparr>) ?n c1"
    and c: "compile zero_compiler T = Inr c"
    and ceq: "c = (setInstr c1 ?n (\<lambda>i. i\<lparr>opcode := OpMatch\<rparr>))\<lparr>c_pc := ?n + 1\<rparr>"
    by blast
  from e have pc: "c_pc c1 = ?n" and len: "length (c_instr c1) = ?n + 1"
    and body: "\<forall>i. i < ?n \<longrightarrow> opcode (c_instr c1 ! i) \<in> bodyOps"
    by (simp_all add: emitted_def zero_compiler_def)
  have "length (c_instr c) = ?n + 1" using ceq len by (simp add: setInstr_def)
  moreover have "opcode (c_instr c ! ?n) = OpMatch" using ceq len by (simp add: setInstr_def)
  moreover have "\<forall>i < ?n. opcode (c_instr c ! i) \<in> bodyOps"
    using ceq len body by (simp add: setInstr_def nth_list_update)
  ultimately show ?thesis using n c1 pc c by blast
qed

theorem compile_count_plus_match_witness:
  "wellFormed (Alts (Word ''this'') (Word ''that'') :: unit node) \<and>
   (\<exists>c. compile zero_compiler (Alts (Word ''this'') (Word ''that'') :: unit node) = Inr c \<and>
        length (c_instr c) = 5 \<and> opcode (c_instr c ! 4) = OpMatch)"
proof -
  have w: "wellFormed (Alts (Word ''this'') (Word ''that'') :: unit node)" by simp
  from compile_count_plus_match[OF w] show ?thesis by auto
qed

lemma compile_shape:
  assumes "compile zero_compiler T = Inr c" and "T \<noteq> Nil"
  shows "\<exists>n. countinstr T = Inr n \<and> length (c_instr c) = n + 1 \<and>
             opcode (c_instr c ! n) = OpMatch \<and>
             (\<forall>i<n. opcode (c_instr c ! i) \<in> bodyOps) \<and>
             (\<forall>i<n + 1. gen (c_instr c ! i) = 0)"
proof -
  from assms obtain n where n: "countinstr T = Inr n"
    by (cases "countinstr T") (auto simp: compile_def countinstrForProgram_def)
  from compile_emitted[OF n] assms(1) obtain c1 where
    e: "emitted (zero_compiler\<lparr>c_instr := replicate (n + 1) zero_instr\<rparr>) n c1"
    and ceq: "c = (setInstr c1 n (\<lambda>i. i\<lparr>opcode := OpMatch\<rparr>))\<lparr>c_pc := n + 1\<rparr>"
    by auto
  from e have len: "length (c_instr c1) = n + 1"
    and body: "\<forall>i. i < n \<longrightarrow> opcode (c_instr c1 ! i) \<in> bodyOps"
    and g: "\<forall>i. gen (c_instr c1 ! i) = gen (replicate (n + 1) (zero_instr :: 'a instr) ! i)"
    by (simp_all add: emitted_def zero_compiler_def)
  have g0: "gen (c_instr c1 ! i) = 0" if "i < n + 1" for i
  proof -
    have "replicate (n + 1) (zero_instr :: 'a instr) ! i = zero_instr"
      using that by (simp only: nth_replicate)
    with g show ?thesis by (simp add: zero_instr_def)
  qed
  show ?thesis
    apply (rule exI[of _ n])
    using n len body g0 ceq by (auto simp: setInstr_def nth_list_update)
qed


section \<open>Properties of the user-input scanner\<close>

lemma cmdScan_finish: "cmdScan rs = finish (tokenizeLoop rs Default 0 zero_cmdScanner)"
  by (simp add: cmdScan_def innerTokenize_def finish_def Let_def)

lemma tokenizeLoop_words:
  "finish (tokenizeLoop rs st tm \<lparr>cs_word = w, cs_words = ws\<rparr>) =
     ws @ finish (tokenizeLoop rs st tm \<lparr>cs_word = w, cs_words = []\<rparr>)"
proof (induction rs arbitrary: st tm w ws)
  case Nil
  then show ?case by (simp add: finish_def addWord_def wordIsEmpty_def)
next
  case (Cons r rs)
  show ?case
  proof (cases st)
    case Default
    then show ?thesis
      using Cons.IH[of WaitingForTerminator "0x22" w ws] Cons.IH[of InWord tm "w @ encodeRune r" ws]
        Cons.IH[of Default tm w ws]
      by (simp add: addRuneToWord_def)
  next
    case InWord
    then show ?thesis
      using Cons.IH[of Default tm "[]" "ws @ [w]"] Cons.IH[of InWord tm "w @ encodeRune r" ws]
        Cons.IH[of Default tm "[]" "[w]"]
      by (simp add: addRuneToWord_def addWord_def)
  next
    case WaitingForTerminator
    then show ?thesis
      using Cons.IH[of Default tm "[]" "ws @ [w]"] Cons.IH[of WaitingForTerminator tm "w @ encodeRune r" ws]
        Cons.IH[of Default tm "[]" "[w]"]
      by (simp add: addRuneToWord_def addWord_def)
  qed
qed

lemma tokenizeLoop_terminator:
  "st \<noteq> WaitingForTerminator \<Longrightarrow> tokenizeLoop rs st tm t = tokenizeLoop rs st tm' t"
proof (induction rs arbitrary: st t)
  case Nil
  then show ?case by simp
next
  case (Cons r rs)
  then show ?case by (cases st) auto
qed

lemma tokenizeLoop_InWord:
  "\<forall>x\<in>set w. \<not> IsSpace x \<Longrightarrow>
   tokenizeLoop (w @ rs) InWord tm t = tokenizeLoop rs InWord tm (t\<lparr>cs_word := cs_word t @ encodeRunes w\<rparr>)"
  by (induction w arbitrary: t) (simp_all add: encodeRunes_def addRuneToWord_def)

lemma tokenizeLoop_quoted:
  "tm \<notin> set q \<Longrightarrow>
   tokenizeLoop (q @ rs) WaitingForTerminator tm t =
     tokenizeLoop rs WaitingForTerminator tm (t\<lparr>cs_word := cs_word t @ encodeRunes q\<rparr>)"
  by (induction q arbitrary: t) (simp_all add: encodeRunes_def addRuneToWord_def)

lemma encodeRune_nonempty: "encodeRune r \<noteq> []"
  by (simp add: encodeRune_def)

lemma encodeRunes_empty: "encodeRunes q = [] \<longleftrightarrow> q = []"
  by (cases q) (simp_all add: encodeRunes_def encodeRune_nonempty)


lemma scan_from_Default:
  "finish (tokenizeLoop rs Default tm \<lparr>cs_word = [], cs_words = []\<rparr>) = cmdScan rs"
  using tokenizeLoop_terminator[of Default rs tm _ 0]
  by (simp add: cmdScan_finish zero_cmdScanner_def)

lemma cmdScan_Nil: "cmdScan [] = []"
  by (simp add: cmdScan_finish zero_cmdScanner_def finish_def wordIsEmpty_def)

lemma cmdScan_space: "IsSpace r \<Longrightarrow> cmdScan (r # rs) = cmdScan rs"
  by (simp add: cmdScan_finish)

lemma cmdScan_quoted:
  assumes "0x22 \<notin> set q"
  shows "cmdScan (0x22 # q @ 0x22 # rs) = encodeRunes q # cmdScan rs"
proof -
  have sp: "\<not> IsSpace 0x22" by (simp add: IsSpace_def)
  have "cmdScan (0x22 # q @ 0x22 # rs) =
        finish (tokenizeLoop (q @ 0x22 # rs) WaitingForTerminator 0x22 \<lparr>cs_word = [], cs_words = []\<rparr>)"
    using sp by (simp add: cmdScan_finish zero_cmdScanner_def)
  also have "\<dots> = finish (tokenizeLoop (0x22 # rs) WaitingForTerminator 0x22 \<lparr>cs_word = encodeRunes q, cs_words = []\<rparr>)"
    using assms by (simp add: tokenizeLoop_quoted)
  also have "\<dots> = finish (tokenizeLoop rs Default 0x22 \<lparr>cs_word = [], cs_words = [encodeRunes q]\<rparr>)"
    by (simp add: addWord_def)
  also have "\<dots> = encodeRunes q # cmdScan rs"
    by (simp add: tokenizeLoop_words[of rs Default _ "[]" "[encodeRunes q]"] scan_from_Default)
  finally show ?thesis .
qed

lemma cmdScan_unterminated:
  assumes "0x22 \<notin> set q"
  shows "cmdScan (0x22 # q) = (if q = [] then [] else [encodeRunes q])"
proof -
  have sp: "\<not> IsSpace 0x22" by (simp add: IsSpace_def)
  have "cmdScan (0x22 # q) =
        finish (tokenizeLoop (q @ []) WaitingForTerminator 0x22 \<lparr>cs_word = [], cs_words = []\<rparr>)"
    using sp by (simp add: cmdScan_finish zero_cmdScanner_def)
  also have "\<dots> = finish \<lparr>cs_word = encodeRunes q, cs_words = []\<rparr>"
    using tokenizeLoop_quoted[OF assms, of "[]" "\<lparr>cs_word = [], cs_words = []\<rparr>"] by simp
  also have "\<dots> = (if q = [] then [] else [encodeRunes q])"
    by (simp add: finish_def wordIsEmpty_def addWord_def encodeRunes_empty)
  finally show ?thesis .
qed

lemma cmdScan_word_space:
  assumes "\<not> IsSpace r" "r \<noteq> 0x22" "\<forall>x\<in>set w. \<not> IsSpace x" "IsSpace s"
  shows "cmdScan (r # w @ s # rs) = encodeRunes (r # w) # cmdScan rs"
proof -
  have "cmdScan (r # w @ s # rs) =
        finish (tokenizeLoop (w @ s # rs) InWord 0 \<lparr>cs_word = encodeRune r, cs_words = []\<rparr>)"
    using assms by (simp add: cmdScan_finish zero_cmdScanner_def addRuneToWord_def)
  also have "\<dots> = finish (tokenizeLoop (s # rs) InWord 0 \<lparr>cs_word = encodeRunes (r # w), cs_words = []\<rparr>)"
    using assms by (simp add: tokenizeLoop_InWord encodeRunes_def)
  also have "\<dots> = finish (tokenizeLoop rs Default 0 \<lparr>cs_word = [], cs_words = [encodeRunes (r # w)]\<rparr>)"
    using assms by (simp add: addWord_def)
  also have "\<dots> = encodeRunes (r # w) # cmdScan rs"
    by (simp add: tokenizeLoop_words[of rs Default _ "[]" "[encodeRunes (r # w)]"] scan_from_Default)
  finally show ?thesis .
qed

lemma cmdScan_word_end:
  assumes "\<not> IsSpace r" "r \<noteq> 0x22" "\<forall>x\<in>set w. \<not> IsSpace x"
  shows "cmdScan (r # w) = [encodeRunes (r # w)]"
proof -
  have "cmdScan (r # w) =
        finish (tokenizeLoop (w @ []) InWord 0 \<lparr>cs_word = encodeRune r, cs_words = []\<rparr>)"
    using assms by (simp add: cmdScan_finish zero_cmdScanner_def addRuneToWord_def)
  also have "\<dots> = finish \<lparr>cs_word = encodeRunes (r # w), cs_words = []\<rparr>"
    using tokenizeLoop_InWord[OF assms(3), of "[]" 0 "\<lparr>cs_word = encodeRune r, cs_words = []\<rparr>"]
    by (simp add: encodeRunes_def)
  also have "\<dots> = [encodeRunes (r # w)]"
    by (simp add: finish_def wordIsEmpty_def addWord_def encodeRunes_def encodeRune_nonempty)
  finally show ?thesis .
qed

text \<open>
  Claim C8, amended. The scanner skips whitespace between words. A \<open>"\<close> met where a
  word would start opens a quoted region: the runes up to the next \<open>"\<close>, whitespace
  included and both quotes excluded, are one word (the word may be empty); when no
  \<open>"\<close> follows, the runes up to the end are one word unless there is none. A run of
  runes that are not whitespace and that does not start with \<open>"\<close> is one word, ended by
  the next whitespace or by the end of the input; a \<open>"\<close> inside such a run is a rune of
  the word.
\<close>

theorem cmdScan_words:
  "cmdScan [] = [] \<and>
   (\<forall>r rs. IsSpace r \<longrightarrow> cmdScan (r # rs) = cmdScan rs) \<and>
   (\<forall>q rs. 0x22 \<notin> set q \<longrightarrow> cmdScan (0x22 # q @ 0x22 # rs) = encodeRunes q # cmdScan rs) \<and>
   (\<forall>q. 0x22 \<notin> set q \<longrightarrow> cmdScan (0x22 # q) = (if q = [] then [] else [encodeRunes q])) \<and>
   (\<forall>r w s rs. \<not> IsSpace r \<and> r \<noteq> 0x22 \<and> (\<forall>x\<in>set w. \<not> IsSpace x) \<and> IsSpace s \<longrightarrow>
        cmdScan (r # w @ s # rs) = encodeRunes (r # w) # cmdScan rs) \<and>
   (\<forall>r w. \<not> IsSpace r \<and> r \<noteq> 0x22 \<and> (\<forall>x\<in>set w. \<not> IsSpace x) \<longrightarrow>
        cmdScan (r # w) = [encodeRunes (r # w)])"
  using cmdScan_Nil cmdScan_space cmdScan_quoted cmdScan_unterminated cmdScan_word_space
    cmdScan_word_end by blast


theorem cmdScan_words_witness:
  "(0x22::rune) \<notin> set [0x61, 0x20, 0x62] \<and>
   cmdScan (0x22 # [0x61, 0x20, 0x62] @ 0x22 # []) = [''a b'']"
proof -
  have q: "(0x22::rune) \<notin> set [0x61, 0x20, 0x62]" by simp
  have "cmdScan (0x22 # [0x61, 0x20, 0x62] @ 0x22 # []) = encodeRunes [0x61, 0x20, 0x62] # cmdScan []"
    using cmdScan_words q by blast
  moreover have "cmdScan [] = []" using cmdScan_words by blast
  moreover have "encodeRunes [0x61, 0x20, 0x62] = ''a b''"
    by (simp add: encodeRunes_def encodeRune_def char_of_def)
  ultimately show ?thesis using q by simp
qed

text \<open>
  Claim C8 as the specification states it fails on \<open>a"b c"\<close>: the first \<open>"\<close> is outside
  a quoted region and opens none, and \<open>b c\<close> is not a word.
\<close>

theorem cmdScan_quote_inside_word:
  "cmdScan [0x61, 0x22, 0x62, 0x20, 0x63, 0x22] =
     [[CHR ''a'', CHR 0x22, CHR ''b''], [CHR ''c'', CHR 0x22]]"
  by (simp add: cmdScan_def innerTokenize_def zero_cmdScanner_def IsSpace_def addRuneToWord_def
      addWord_def wordIsEmpty_def encodeRune_def char_of_def)

section \<open>Properties of the matching VM\<close>

lemma runThreads_done:
  "\<not> i < length (currentThreads v) \<Longrightarrow> runThreads v i word = Some (Inr v)"
  by (subst runThreads.simps) simp

lemma runThreads_step:
  "i < length (currentThreads v) \<Longrightarrow>
   runThreads v i word =
     (case continu v (currentThreads v ! i) word of
        Inl e \<Rightarrow> Some (Inl e)
      | Inr v' \<Rightarrow> runThreads v' (i + 1) word)"
  by (subst runThreads.simps) simp

lemmas vm_eval = execute_def makeThreadLists_def addThread_def appendThread_def processWord_def
  finishThreads_def continu_def trace_def traceBind_def doJmp_def doSplit_def doCmp_def
  doSave_def doMeta_def addMatch_def clone_def setPc_def bind_def swap_def clear_def
  zero_vm_def runThreads_done runThreads_step Let_def

lemmas compile_eval = compile_def countinstrForProgram_def zero_compiler_def zero_instr_def
  setInstr_def emitWord_def emitVar_def emitMatch_def Let_def

lemma runThreads_diverges:
  assumes J: "J v i"
    and step: "\<And>v i. J v i \<Longrightarrow>
             i < length (currentThreads v) \<and>
             (\<exists>v'. continu v (currentThreads v ! i) word = Inr v' \<and> J v' (i + 1))"
  shows "runThreads v i word = None"
proof (rule ccontr)
  assume "runThreads v i word \<noteq> None"
  then obtain y where y: "runThreads v i word = Some y" by blast
  have "word = word \<longrightarrow> \<not> J v i"
  proof (rule runThreads.raw_induct[where P = "\<lambda>v i w y. w = word \<longrightarrow> \<not> J v i", OF _ y])
    fix rt v i w va
    assume IH: "\<And>v i w y. rt v i w = Some y \<Longrightarrow> w = word \<longrightarrow> \<not> J v i"
      and body: "(if i < length (currentThreads v)
          then case continu v (currentThreads v ! i) w of
               Inl e \<Rightarrow> Some (Inl e) | Inr v' \<Rightarrow> rt v' (i + 1) w
          else Some (Inr v)) = Some va"
    show "w = word \<longrightarrow> \<not> J v i"
    proof (intro impI notI)
      assume w: "w = word" and Jv: "J v i"
      from step[OF Jv] obtain v' where lt: "i < length (currentThreads v)"
        and c: "continu v (currentThreads v ! i) word = Inr v'" and J': "J v' (i + 1)" by blast
      from body lt c w have "rt v' (i + 1) word = Some va" by simp
      from IH[OF this] J' show False by simp
    qed
  qed
  with J show False by simp
qed

lemma compile_loopProg:
  "compile zero_compiler (Meta (Some cb) (Rep RepeatZeroOrMore (Rep RepeatZeroOrMore (Word ''a'')))) =
     Inr \<lparr>c_instr = loopProg cb, c_pc = 7\<rparr>"
  by (simp add: compile_eval loopProg_def eval_nat_numeral)

lemma bindingItems_cmp:
  "\<forall>b\<in>set bs. opcode (b_instr b) = OpCmp \<Longrightarrow> \<exists>its. bindingItems bs = Inr its"
  by (induction bs) auto

lemma loopInv_extend:
  assumes inv: "loopInv cb v i"
    and v': "prog v' = prog v" "vm_gen v' = vm_gen v" "traceWriter v' = traceWriter v"
      "currentThreads v' = currentThreads v @ ext"
    and ext: "\<forall>t\<in>set ext. 0 \<le> pc t \<and> pc t < 7 \<and> (\<forall>b\<in>set (items t). opcode (b_instr b) = OpCmp)"
    and cyc: "pc (currentThreads v ! i) \<in> {0, 1, 2, 5} \<Longrightarrow> \<exists>t\<in>set ext. pc t \<in> {0, 1, 2, 5}"
  shows "loopInv cb v' (i + 1)"
proof -
  from inv obtain j where j: "i \<le> j" "j < length (currentThreads v)"
    "pc (currentThreads v ! j) \<in> {0, 1, 2, 5}" unfolding loopInv_def by blast
  have "\<exists>k. i + 1 \<le> k \<and> k < length (currentThreads v') \<and> pc (currentThreads v' ! k) \<in> {0, 1, 2, 5}"
  proof (cases "j = i")
    case True
    with j cyc obtain t where t: "t \<in> set ext" "pc t \<in> {0, 1, 2, 5}" by blast
    then obtain k where k: "k < length ext" "ext ! k = t" by (auto simp: in_set_conv_nth)
    have "currentThreads v' ! (length (currentThreads v) + k) = t"
      using k v'(4) by (simp add: nth_append)
    with t k j v'(4) show ?thesis
      by (intro exI[of _ "length (currentThreads v) + k"]) simp
  next
    case False
    with j v'(4) show ?thesis by (intro exI[of _ j]) (simp add: nth_append)
  qed
  with inv v' ext show ?thesis unfolding loopInv_def by auto
qed

lemma loopInv_step:
  assumes inv: "loopInv cb v i"
  shows "i < length (currentThreads v) \<and>
         (\<exists>v'. continu v (currentThreads v ! i) word = Inr v' \<and> loopInv cb v' (i + 1))"
proof -
  let ?t = "currentThreads v ! i"
  from inv have lt: "i < length (currentThreads v)" unfolding loopInv_def by auto
  then have tin: "?t \<in> set (currentThreads v)" by simp
  with inv have rng: "0 \<le> pc ?t" "pc ?t < 7"
    and its: "\<forall>b\<in>set (items ?t). opcode (b_instr b) = OpCmp"
    unfolding loopInv_def by auto
  from inv have p: "prog v = loopProg cb" and g: "vm_gen v \<noteq> 0" and tr: "\<not> traceWriter v"
    unfolding loopInv_def by auto
  from rng have "pc ?t = 0 \<or> pc ?t = 1 \<or> pc ?t = 2 \<or> pc ?t = 3 \<or> pc ?t = 4 \<or> pc ?t = 5 \<or> pc ?t = 6"
    by arith
  then have "\<exists>v'. continu v ?t word = Inr v' \<and> loopInv cb v' (i + 1)"
  proof (elim disjE)
    assume pc: "pc ?t = 0"
    let ?v' = "v\<lparr>currentThreads := currentThreads v @ [?t\<lparr>meta := Some cb, pc := 1\<rparr>]\<rparr>"
    have "continu v ?t word = Inr ?v'"
      using pc p g tr by (simp add: vm_eval loopProg_def zero_instr_def)
    moreover have "loopInv cb ?v' (i + 1)"
      by (rule loopInv_extend[OF inv, where ext = "[?t\<lparr>meta := Some cb, pc := 1\<rparr>]"])
         (use its pc in simp_all)
    ultimately show ?thesis by blast
  next
    assume pc: "pc ?t = 1"
    let ?v' = "v\<lparr>currentThreads := currentThreads v @ [?t\<lparr>pc := 2\<rparr>, ?t\<lparr>pc := 6\<rparr>]\<rparr>"
    have "continu v ?t word = Inr ?v'"
      using pc p g tr by (simp add: vm_eval loopProg_def zero_instr_def)
    moreover have "loopInv cb ?v' (i + 1)"
      by (rule loopInv_extend[OF inv, where ext = "[?t\<lparr>pc := 2\<rparr>, ?t\<lparr>pc := 6\<rparr>]"])
         (use its pc in simp_all)
    ultimately show ?thesis by blast
  next
    assume pc: "pc ?t = 2"
    let ?v' = "v\<lparr>currentThreads := currentThreads v @ [?t\<lparr>pc := 3\<rparr>, ?t\<lparr>pc := 5\<rparr>]\<rparr>"
    have "continu v ?t word = Inr ?v'"
      using pc p g tr by (simp add: vm_eval loopProg_def zero_instr_def)
    moreover have "loopInv cb ?v' (i + 1)"
      by (rule loopInv_extend[OF inv, where ext = "[?t\<lparr>pc := 3\<rparr>, ?t\<lparr>pc := 5\<rparr>]"])
         (use its pc in simp_all)
    ultimately show ?thesis by blast
  next
    assume pc: "pc ?t = 3"
    have "\<exists>nx. continu v ?t word = Inr (v\<lparr>nextThreads := nx\<rparr>)"
      using pc p g tr
      by (cases word) (auto simp: vm_eval loopProg_def zero_instr_def intro: exI[of _ "nextThreads v"])
    then obtain nx where c: "continu v ?t word = Inr (v\<lparr>nextThreads := nx\<rparr>)" by blast
    have "loopInv cb (v\<lparr>nextThreads := nx\<rparr>) (i + 1)"
      by (rule loopInv_extend[OF inv, where ext = "[]"]) (use pc in simp_all)
    with c show ?thesis by blast
  next
    assume pc: "pc ?t = 4"
    let ?v' = "v\<lparr>currentThreads := currentThreads v @ [?t\<lparr>pc := 2\<rparr>]\<rparr>"
    have "continu v ?t word = Inr ?v'"
      using pc p g tr by (simp add: vm_eval loopProg_def zero_instr_def)
    moreover have "loopInv cb ?v' (i + 1)"
      by (rule loopInv_extend[OF inv, where ext = "[?t\<lparr>pc := 2\<rparr>]"])
         (use its pc in simp_all)
    ultimately show ?thesis by blast
  next
    assume pc: "pc ?t = 5"
    let ?v' = "v\<lparr>currentThreads := currentThreads v @ [?t\<lparr>pc := 1\<rparr>]\<rparr>"
    have "continu v ?t word = Inr ?v'"
      using pc p g tr by (simp add: vm_eval loopProg_def zero_instr_def)
    moreover have "loopInv cb ?v' (i + 1)"
      by (rule loopInv_extend[OF inv, where ext = "[?t\<lparr>pc := 1\<rparr>]"])
         (use its pc in simp_all)
    ultimately show ?thesis by blast
  next
    assume pc: "pc ?t = 6"
    from bindingItems_cmp[OF its] obtain bi where bi: "bindingItems (items ?t) = Inr bi" by blast
    let ?v' = "v\<lparr>matches := matches v @ [\<lparr>match_items = bi, match_meta = meta ?t\<rparr>]\<rparr>"
    have "continu v ?t word = Inr ?v'"
      using pc p g tr bi by (simp add: vm_eval loopProg_def zero_instr_def)
    moreover have "loopInv cb ?v' (i + 1)"
      by (rule loopInv_extend[OF inv, where ext = "[]"]) (use pc in simp_all)
    ultimately show ?thesis by blast
  qed
  with lt show ?thesis by simp
qed

lemma processWord_loopProg:
  assumes "prog v = loopProg cb" "vm_gen v \<ge> 1" "\<not> traceWriter v"
    "currentThreads v = [\<lparr>pc = 0, items = [], meta = None\<rparr>]"
  shows "processWord v word = None"
proof -
  have "loopInv cb (v\<lparr>vm_gen := vm_gen v + 1\<rparr>) 0"
    using assms unfolding loopInv_def
    by simp
  then have "runThreads (v\<lparr>vm_gen := vm_gen v + 1\<rparr>) 0 word = None"
    by (rule runThreads_diverges[where J = "loopInv cb"]) (rule loopInv_step)
  then show ?thesis by (simp add: processWord_def)
qed


lemma execute_loopProg: "execute zero_vm (loopProg cb) inp = None"
proof -
  let ?v3 = "\<lparr>prog = loopProg cb, input = inp,
              currentThreads = [\<lparr>pc = 0, items = [], meta = None\<rparr>], nextThreads = [],
              matches = [], vm_gen = 1, wordIndex = 0, traceWriter = False\<rparr>"
  have a: "addThread (makeThreadLists (zero_vm\<lparr>prog := loopProg cb, input := inp\<rparr>)\<lparr>matches := [], vm_gen := 1\<rparr>)
             CurrentThreads \<lparr>pc = 0, items = [], meta = None\<rparr> = Inr ?v3"
    by (simp add: addThread_def appendThread_def makeThreadLists_def zero_vm_def loopProg_def zero_instr_def)
  have b: "processWord (?v3\<lparr>wordIndex := k\<rparr>) word = None" for k word
    by (rule processWord_loopProg[of _ cb]) simp_all
  show ?thesis
  proof (cases inp)
    case Nil
    have "processWord ?v3 None = None" using b[of 0 None] by simp
    with a Nil show ?thesis by (simp add: execute_def Let_def)
  next
    case (Cons w ws)
    then have "[0..<length inp] = 0 # [1..<length inp]" by (simp add: upt_rec)
    then have "processWords ?v3 [0..<length inp] = None" using b[of 0 "Some (inp ! 0)"] by simp
    with a show ?thesis by (simp add: execute_def Let_def)
  qed
qed

text \<open>
  Claim C2, at a failing input. After \<open>Add("(a*)*", cb)\<close> the compiled program has a
  cycle of \<open>SPLIT\<close> and \<open>JMP\<close> instructions that consume no word. \<open>addThread\<close> appends
  a thread at a pc it has already visited in the generation, so the loop of the first
  \<open>processWord\<close> never ends: \<open>execute\<close> and \<open>Parse\<close> return no result, on any input.
\<close>

theorem nested_star_never_terminates:
  "Compile (addParseTree zero_Cmds (Rep RepeatZeroOrMore (Rep RepeatZeroOrMore (Word ''a''))) cb) =
     Inr \<lparr>parseTree = Meta (Some cb) (Rep RepeatZeroOrMore (Rep RepeatZeroOrMore (Word ''a''))),
          cmds_prog = loopProg cb, cmds_trace = False\<rparr> \<and>
   execute zero_vm (loopProg cb) inp = None \<and>
   Parse \<lparr>parseTree = Meta (Some cb) (Rep RepeatZeroOrMore (Rep RepeatZeroOrMore (Word ''a''))),
          cmds_prog = loopProg cb, cmds_trace = False\<rparr> cmd ctx = None"
proof -
  have "execute (zero_vm\<lparr>traceWriter := False\<rparr>) (loopProg cb) (cmdScan cmd) = None"
    using execute_loopProg[of cb "cmdScan cmd"] by (simp add: zero_vm_def)
  then show ?thesis
    by (simp add: Compile_def addParseTree_def zero_Cmds_def compile_loopProg execute_loopProg Parse_def)
qed

lemma compile_optProg:
  "compile zero_compiler (Meta (Some cb) (Rep RepeatZeroOrOne (Rep RepeatZeroOrOne (Word ''a'')))) =
     Inr \<lparr>c_instr = optProg cb, c_pc = 5\<rparr>"
  by (simp add: compile_eval optProg_def eval_nat_numeral)

text \<open>
  Claim C1, at a failing input. No call of \<open>addThread\<close> changes the program, so no
  \<open>gen\<close> field is ever stamped. After \<open>Add("(a?)?", cb)\<close> and on the empty input, the first
  word step (generation 2) puts two threads at pc 4 on the current list: \<open>addThread\<close>
  leaves every \<open>gen\<close> field of the program at 0. Both threads reach \<open>MATCH\<close>, the match
  is recorded twice, and \<open>Parse\<close> reports an ambiguity.
\<close>

theorem addThread_never_stamps:
  "(case addThread v l t of Inl e \<Rightarrow> True | Inr v' \<Rightarrow> prog v' = prog v) \<and>
   Compile (addParseTree zero_Cmds (Rep RepeatZeroOrOne (Rep RepeatZeroOrOne (Word ''a''))) cb) =
     Inr \<lparr>parseTree = Meta (Some cb) (Rep RepeatZeroOrOne (Rep RepeatZeroOrOne (Word ''a''))),
          cmds_prog = optProg cb, cmds_trace = False\<rparr> \<and>
   (\<exists>v. runThreads \<lparr>prog = optProg cb, input = [],
              currentThreads = [\<lparr>pc = 0, items = [], meta = None\<rparr>], nextThreads = [],
              matches = [], vm_gen = 2, wordIndex = 0, traceWriter = False\<rparr> 0 None = Some (Inr v) \<and>
        map pc (currentThreads v) = [0, 1, 2, 4, 3, 4] \<and>
        map gen (prog v) = [0, 0, 0, 0, 0] \<and> vm_gen v = 2 \<and>
        matches v = [\<lparr>match_items = [], match_meta = Some cb\<rparr>,
                     \<lparr>match_items = [], match_meta = Some cb\<rparr>]) \<and>
   Parse \<lparr>parseTree = Meta (Some cb) (Rep RepeatZeroOrOne (Rep RepeatZeroOrOne (Word ''a''))),
          cmds_prog = optProg cb, cmds_trace = False\<rparr> [] ctx = Some (Inr (False, []))"
proof -
  have c: "cmdScan [] = []"
    by (simp add: cmdScan_def innerTokenize_def zero_cmdScanner_def wordIsEmpty_def)
  have 1: "Compile (addParseTree zero_Cmds (Rep RepeatZeroOrOne (Rep RepeatZeroOrOne (Word ''a''))) cb) =
     Inr \<lparr>parseTree = Meta (Some cb) (Rep RepeatZeroOrOne (Rep RepeatZeroOrOne (Word ''a''))),
          cmds_prog = optProg cb, cmds_trace = False\<rparr>"
    by (simp add: Compile_def addParseTree_def zero_Cmds_def compile_optProg)
  have 2: "\<exists>v. runThreads \<lparr>prog = optProg cb, input = [],
              currentThreads = [\<lparr>pc = 0, items = [], meta = None\<rparr>], nextThreads = [],
              matches = [], vm_gen = 2, wordIndex = 0, traceWriter = False\<rparr> 0 None = Some (Inr v) \<and>
        map pc (currentThreads v) = [0, 1, 2, 4, 3, 4] \<and>
        map gen (prog v) = [0, 0, 0, 0, 0] \<and> vm_gen v = 2 \<and>
        matches v = [\<lparr>match_items = [], match_meta = Some cb\<rparr>,
                     \<lparr>match_items = [], match_meta = Some cb\<rparr>]"
    by (simp add: vm_eval optProg_def zero_instr_def)
  have 3: "Parse \<lparr>parseTree = Meta (Some cb) (Rep RepeatZeroOrOne (Rep RepeatZeroOrOne (Word ''a''))),
          cmds_prog = optProg cb, cmds_trace = False\<rparr> [] ctx = Some (Inr (False, []))"
    by (simp add: Parse_def c vm_eval optProg_def zero_instr_def maximalMatches_def
        longestMatches_def zero_match_def)
  have 0: "(case addThread v l t of Inl e \<Rightarrow> True | Inr v' \<Rightarrow> prog v' = prog v)"
    by (cases l) (simp_all add: addThread_def appendThread_def)
  from 0 1 2 3 show ?thesis by blast
qed

text \<open>
  Claim C5. In a run of a compiled program (the generation is positive, and the word
  index is in range when a trace writer is set), a thread that stands on a \<open>CMP\<close>
  instruction is moved to the list of the next word, with the word bound to the
  instruction and its pc advanced by one, exactly when there is a word and the word is a
  prefix of the keyword; otherwise the VM state is unchanged and the thread is on no list.
\<close>

theorem cmp_binds_prefix:
  assumes "compile zero_compiler T = Inr c" and "prog v = c_instr c" and "0 < vm_gen v"
    and "0 \<le> pc t" and "nat (pc t) < length (prog v)"
    and "opcode (prog v ! nat (pc t)) = OpCmp"
    and "traceWriter v \<longrightarrow> wordIndex v < length (input v)"
  shows "continu v t word =
           Inr (case word of
                  None \<Rightarrow> v
                | Some w \<Rightarrow>
                    if prefix w (strs0 (prog v ! nat (pc t))) then
                      v\<lparr>nextThreads := nextThreads v @
                          [t\<lparr>items := items t @ [\<lparr>b_instr = prog v ! nat (pc t), b_val = w\<rparr>],
                             pc := pc t + 1\<rparr>]\<rparr>
                    else v)"
proof -
  from assms have "T \<noteq> Nil" by (auto simp: compile_def zero_compiler_def)
  from compile_shape[OF assms(1) this] obtain n where len: "length (c_instr c) = n + 1"
    and last: "opcode (c_instr c ! n) = OpMatch"
    and g: "\<forall>i<n + 1. gen (c_instr c ! i) = 0" by blast
  have "nat (pc t) \<noteq> n" using last assms(2,6) by auto
  with assms(2,5) len have lt: "nat (pc t) + 1 < length (prog v)" by simp
  then have g1: "gen (prog v ! nat (pc t + 1)) \<noteq> vm_gen v"
    using g assms(2,3,4) len by (simp add: nat_add_distrib)
  have r: "\<not> pc t + 1 < 0" "\<not> int (length (prog v)) \<le> pc t + 1" "\<not> pc t < 0"
    "\<not> int (length (prog v)) \<le> pc t" "length (prog v) \<noteq> 0"
    using lt assms(4) by auto
  show ?thesis
    using assms(6,7) g1 r
    by (cases word) (simp_all add: continu_def trace_def traceBind_def doCmp_def addThread_def
        appendThread_def bind_def Let_def)
qed


theorem cmp_binds_prefix_witness:
  "compile zero_compiler (Word ''show'' :: unit node) =
     Inr \<lparr>c_instr = [zero_instr\<lparr>opcode := OpCmp, strs0 := ''show''\<rparr>, zero_instr\<lparr>opcode := OpMatch\<rparr>],
          c_pc = 2\<rparr> \<and>
   continu \<lparr>prog = [zero_instr\<lparr>opcode := OpCmp, strs0 := ''show''\<rparr>, zero_instr\<lparr>opcode := OpMatch\<rparr>],
            input = [''sh''], currentThreads = [\<lparr>pc = 0, items = [], meta = None\<rparr>],
            nextThreads = [], matches = [], vm_gen = 2, wordIndex = 0, traceWriter = True\<rparr>
           \<lparr>pc = 0, items = [], meta = None :: unit option\<rparr> (Some ''sh'') =
     Inr \<lparr>prog = [zero_instr\<lparr>opcode := OpCmp, strs0 := ''show''\<rparr>, zero_instr\<lparr>opcode := OpMatch\<rparr>],
            input = [''sh''], currentThreads = [\<lparr>pc = 0, items = [], meta = None\<rparr>],
            nextThreads = [\<lparr>pc = 1, items = [\<lparr>b_instr = zero_instr\<lparr>opcode := OpCmp, strs0 := ''show''\<rparr>, b_val = ''sh''\<rparr>], meta = None\<rparr>],
            matches = [], vm_gen = 2, wordIndex = 0, traceWriter = True\<rparr>"
proof -
  have c: "compile zero_compiler (Word ''show'' :: unit node) =
     Inr \<lparr>c_instr = [zero_instr\<lparr>opcode := OpCmp, strs0 := ''show''\<rparr>, zero_instr\<lparr>opcode := OpMatch\<rparr>],
          c_pc = 2\<rparr>"
    by (simp add: compile_eval eval_nat_numeral)
  show ?thesis
    using c cmp_binds_prefix[OF c, of "\<lparr>prog = [zero_instr\<lparr>opcode := OpCmp, strs0 := ''show''\<rparr>, zero_instr\<lparr>opcode := OpMatch\<rparr>],
            input = [''sh''], currentThreads = [\<lparr>pc = 0, items = [], meta = None\<rparr>],
            nextThreads = [], matches = [], vm_gen = 2, wordIndex = 0, traceWriter = True\<rparr>"
        "\<lparr>pc = 0, items = [], meta = None\<rparr>" "Some ''sh''"]
    by (simp add: zero_instr_def)
qed


text \<open>
  Claim C10. The user-input scanner turns the two quotes \<open>""\<close> into one empty word; on
  the empty word \<open>doCmp\<close> takes its matching branch whatever the keyword; and for the
  command set of one keyword \<open>k\<close> with callback \<open>cb\<close>, \<open>Parse\<close> on \<open>""\<close> returns true and
  calls \<open>cb\<close> once with a match whose only item is the keyword \<open>k\<close> with the empty value.
\<close>

theorem empty_quoted_word_matches_keyword:
  "cmdScan [0x22, 0x22] = [[]] \<and>
   doCmp v t i (Some []) =
     (case traceBind v of
        Inl e \<Rightarrow> Inl e
      | Inr u \<Rightarrow> addThread v NextThreads ((bind t i [])\<lparr>pc := pc t + 1\<rparr>)) \<and>
   (\<exists>c. Compile (addParseTree (TraceExecutionTo zero_Cmds tr) (Word k) cb) = Inr c \<and>
        Parse c [0x22, 0x22] ctx =
          Some (Inr (True, [(cb, \<lparr>match_items = [KeywordValue k []], match_meta = Some cb\<rparr>, ctx)])))"
proof -
  have s: "cmdScan [0x22, 0x22] = [[]]"
    by (simp add: cmdScan_def innerTokenize_def zero_cmdScanner_def IsSpace_def addWord_def
        wordIsEmpty_def)
  have d: "doCmp v t i (Some []) =
     (case traceBind v of
        Inl e \<Rightarrow> Inl e
      | Inr u \<Rightarrow> addThread v NextThreads ((bind t i [])\<lparr>pc := pc t + 1\<rparr>))"
    by (simp add: doCmp_def)
  let ?p = "[zero_instr\<lparr>opcode := OpMeta, intf := Some cb\<rparr>,
             zero_instr\<lparr>opcode := OpCmp, strs0 := k\<rparr>,
             zero_instr\<lparr>opcode := OpMatch\<rparr>]"
  let ?c = "\<lparr>parseTree = Meta (Some cb) (Word k), cmds_prog = ?p, cmds_trace = tr\<rparr>"
  have c: "Compile (addParseTree (TraceExecutionTo zero_Cmds tr) (Word k) cb) = Inr ?c"
    by (simp add: Compile_def addParseTree_def TraceExecutionTo_def zero_Cmds_def compile_eval
        eval_nat_numeral)
  have p: "Parse ?c [0x22, 0x22] ctx =
          Some (Inr (True, [(cb, \<lparr>match_items = [KeywordValue k []], match_meta = Some cb\<rparr>, ctx)]))"
    by (simp add: Parse_def s vm_eval zero_instr_def maximalMatches_def longestMatches_def
        zero_match_def)
  from s d c p show ?thesis by blast
qed

section \<open>Properties of the registration\<close>

lemma skipSpaces_all_space:
  "\<forall>r\<in>set ws. IsSpace r \<Longrightarrow> p \<le> length ws \<Longrightarrow> skipSpaces ws p = length ws"
proof (induction ws p rule: skipSpaces.induct)
  case (1 inp p)
  show ?case
  proof (cases "length inp \<le> p")
    case True
    with 1(3) show ?thesis by (subst skipSpaces.simps) simp
  next
    case False
    then have sp: "IsSpace (inp ! p)" using 1(2) by simp
    from 1(1)[OF False _ 1(2)] sp False have "skipSpaces inp (p + 1) = length inp" by simp
    with False sp show ?thesis by (subst skipSpaces.simps) simp
  qed
qed

lemma scanner_Scan_all_space:
  assumes "\<forall>r\<in>set ws. IsSpace r"
  shows "scanner_Scan L D zero_scanner ws =
           Inr (([], True), \<lparr>s_pos = length ws, s_input = ws, s_tokens = [], s_errs = []\<rparr>)"
proof -
  have "skipSpaces ws 0 = length ws" using assms by (simp add: skipSpaces_all_space)
  then show ?thesis
    by (simp add: scanner_Scan_def zero_scanner_def scanLoop.simps scan_next_def)
qed

lemmas parser_eval = parser_Parse_def parser_parse_def parseCommand_def parseTerm_def
  parseVar_def parseWord_def match_def check_def atEnd_def peek_def previous_def advance_def
  runePosition_def addErrorAtPosition_def addError_def sbind_def fbind_def zero_parser_def
  tokenType_def tok_len_def Let_def

lemma parser_Parse_empty:
  "parser_Parse (Suc (Suc (Suc (Suc n)))) zero_parser [] =
     Some (Inr ((Nil, []), zero_parser))"
  by (simp add: parser_eval)

text \<open>
  Claim C9. For a syntax made of whitespace only (the empty syntax included), \<open>Add\<close>
  returns a nil error, with enough fuel for the parser (4 units), and registers
  \<open>Meta cb Nil\<close>: alone when the command set was empty, as the left branch of an \<open>Alts\<close>
  otherwise. \<open>Compile\<close> on the new command set panics with the unknown-node panic of
  \<open>countinstr\<close>.
\<close>

theorem add_empty_syntax_then_compile_panics:
  "(\<forall>r\<in>set ws. IsSpace r) \<longrightarrow>
     Add L D (Suc (Suc (Suc (Suc n)))) c ws cb = Some (Inr (None, addParseTree c Nil cb)) \<and>
     parseTree (addParseTree c Nil cb) =
       (if parseTree c = Nil then Meta (Some cb) Nil else Alts (Meta (Some cb) Nil) (parseTree c)) \<and>
     Compile (addParseTree c Nil cb) = Inl UnknownNode"
proof
  assume ws: "\<forall>r\<in>set ws. IsSpace r"
  have a: "Add L D (Suc (Suc (Suc (Suc n)))) c ws cb = Some (Inr (None, addParseTree c Nil cb))"
    by (simp add: Add_def scanAndParse_def scanner_Scan_all_space[OF ws] parser_Parse_empty fbind_def)
  have b: "parseTree (addParseTree c Nil cb) =
       (if parseTree c = Nil then Meta (Some cb) Nil else Alts (Meta (Some cb) Nil) (parseTree c))"
    by (simp add: addParseTree_def)
  have c: "Compile (addParseTree c Nil cb) = Inl UnknownNode"
    by (simp add: Compile_def b compile_def countinstrForProgram_def)
  from a b c show "Add L D (Suc (Suc (Suc (Suc n)))) c ws cb = Some (Inr (None, addParseTree c Nil cb)) \<and>
     parseTree (addParseTree c Nil cb) =
       (if parseTree c = Nil then Meta (Some cb) Nil else Alts (Meta (Some cb) Nil) (parseTree c)) \<and>
     Compile (addParseTree c Nil cb) = Inl UnknownNode" by blast
qed

theorem add_empty_syntax_then_compile_panics_witness:
  "IsSpace 0x20 \<and> IsSpace 0x09 \<and>
   Add (\<lambda>r. False) (\<lambda>r. False) 4 (zero_Cmds :: unit Cmds) [0x20, 0x09] () =
     Some (Inr (None, \<lparr>parseTree = Meta (Some ()) Nil, cmds_prog = [], cmds_trace = False\<rparr>)) \<and>
   Compile \<lparr>parseTree = Meta (Some ()) Nil, cmds_prog = [], cmds_trace = False\<rparr> =
     Inl UnknownNode"
proof -
  have ws: "\<forall>r\<in>set [0x20, 0x09 :: rune]. IsSpace r" by (simp add: IsSpace_def)
  have e: "addParseTree (zero_Cmds :: unit Cmds) Nil () =
          \<lparr>parseTree = Meta (Some ()) Nil, cmds_prog = [], cmds_trace = False\<rparr>"
    by (simp add: addParseTree_def zero_Cmds_def)
  have n: "(4 :: nat) = Suc (Suc (Suc (Suc 0)))" by simp
  from add_empty_syntax_then_compile_panics[of "[0x20, 0x09]" "\<lambda>r. False" "\<lambda>r. False" 0 zero_Cmds "()"] ws
  show ?thesis unfolding e n by simp
qed


lemma scan_right_paren:
  "scanner_Scan L D zero_scanner [0x29] =
     Inr (([\<lparr>tok_typ = RightParenTok, tok_value = [], tok_pos = 0\<rparr>], True),
          \<lparr>s_pos = Suc 0, s_input = [0x29],
             s_tokens = [\<lparr>tok_typ = RightParenTok, tok_value = [], tok_pos = 0\<rparr>], s_errs = []\<rparr>)"
proof -
  have s0: "skipSpaces [0x29] 0 = 0" by (subst skipSpaces.simps) (simp add: IsSpace_def)
  have s1: "skipSpaces [0x29] (Suc 0) = Suc 0" by (subst skipSpaces.simps) simp
  show ?thesis
    by (simp add: scanner_Scan_def zero_scanner_def scanLoop.simps scan_next_def s0 s1 punct_def)
qed

lemma parse_right_paren:
  "parser_Parse (Suc (Suc (Suc (Suc n)))) zero_parser
       [\<lparr>tok_typ = RightParenTok, tok_value = [], tok_pos = 0\<rparr>] =
     Some (Inr ((Nil, [''At character 2: extra tokens after end of command'']),
                zero_parser\<lparr>p_tokens := [\<lparr>tok_typ = RightParenTok, tok_value = [], tok_pos = 0\<rparr>],
                              p_errors := [''At character 2: extra tokens after end of command'']\<rparr>))"
proof -
  have "showNat 2 = ''2''" by code_simp
  then have "showNat (Suc (Suc 0)) = ''2''" by (simp add: numeral_2_eq_2)
  then show ?thesis by (simp add: parser_eval)
qed

text \<open>
  Claim C7, at a failing input. The syntax \<open>)\<close> is one token, which the parser does not
  consume; the diagnostic is recorded with no token consumed, and its prefix is
  \<open>At character 2: \<close>, not \<open>At character 1: \<close>: \<open>runePosition\<close> returns 1 there and
  \<open>addErrorAtPosition\<close> adds 1 to it. \<open>Add\<close> returns this diagnostic as its error.
\<close>

theorem diagnostic_position_without_token:
  "scanner_Scan L D zero_scanner [0x29] =
     Inr (([\<lparr>tok_typ = RightParenTok, tok_value = [], tok_pos = 0\<rparr>], True),
          \<lparr>s_pos = Suc 0, s_input = [0x29],
             s_tokens = [\<lparr>tok_typ = RightParenTok, tok_value = [], tok_pos = 0\<rparr>], s_errs = []\<rparr>) \<and>
   parser_Parse (Suc (Suc (Suc (Suc n)))) zero_parser
       [\<lparr>tok_typ = RightParenTok, tok_value = [], tok_pos = 0\<rparr>] =
     Some (Inr ((Nil, [''At character 2: extra tokens after end of command'']),
                zero_parser\<lparr>p_tokens := [\<lparr>tok_typ = RightParenTok, tok_value = [], tok_pos = 0\<rparr>],
                              p_errors := [''At character 2: extra tokens after end of command'']\<rparr>)) \<and>
   Add L D (Suc (Suc (Suc (Suc n)))) c [0x29] cb =
     Some (Inr (Some [''At character 2: extra tokens after end of command''], c))"
proof -
  have "Add L D (Suc (Suc (Suc (Suc n)))) c [0x29] cb =
     Some (Inr (Some [''At character 2: extra tokens after end of command''], c))"
    unfolding Add_def scanAndParse_def scan_right_paren
    by (simp add: parse_right_paren fbind_def)
  with scan_right_paren[of L D] parse_right_paren[of n] show ?thesis by simp
qed

text \<open>
  The other slip of \<open>runePosition\<close>: \<open>token.len\<close> counts bytes. After the word \<open>e\<close> with an
  acute accent (one rune, two bytes) at offset 1 of the syntax, the diagnostic says
  character 4; the position after the word is 3.
\<close>

lemma scan_multibyte_word:
  assumes "L 0xE9"
  shows "scanner_Scan L D zero_scanner [0x3C, 0xE9] =
     Inr (([\<lparr>tok_typ = LessThanTok, tok_value = [], tok_pos = 0\<rparr>,
            \<lparr>tok_typ = WordTok, tok_value = [CHR 0xC3, CHR 0xA9], tok_pos = Suc 0\<rparr>], True),
          \<lparr>s_pos = 2, s_input = [0x3C, 0xE9],
             s_tokens = [\<lparr>tok_typ = LessThanTok, tok_value = [], tok_pos = 0\<rparr>,
                         \<lparr>tok_typ = WordTok, tok_value = [CHR 0xC3, CHR 0xA9], tok_pos = Suc 0\<rparr>],
             s_errs = []\<rparr>)"
  using assms
  by (simp add: scanner_Scan_def zero_scanner_def scanLoop.simps scan_next_def skipSpaces.simps
      wordLoop.simps scan_word_def punct_def IsSpace_def isValidWordRune_def encodeRune_def
      char_of_def)

lemma parse_multibyte_word:
  "\<exists>p. parser_Parse (Suc (Suc (Suc (Suc n)))) zero_parser
       [\<lparr>tok_typ = LessThanTok, tok_value = [], tok_pos = 0\<rparr>,
        \<lparr>tok_typ = WordTok, tok_value = [CHR 0xC3, CHR 0xA9], tok_pos = Suc 0\<rparr>] =
     Some (Inr ((Nil, [''At character 4: expected either : to specify variable type, or > to complete variable definition'']), p))"
proof -
  have "showNat 4 = ''4''" by code_simp
  then have "showNat (Suc (Suc (Suc (Suc 0)))) = ''4''" by (simp add: eval_nat_numeral)
  then show ?thesis by (simp add: parser_eval)
qed

text \<open>
  The syntaxes behind the test inputs of the properties of the VM, registered through
  \<open>Add\<close>; the hypotheses say of the tables of the Go library what they say of the runes
  involved: a letter, or neither a letter nor a digit.
\<close>

lemma scan_nested_star:
  assumes "L 0x61" "\<not> L 0x2A" "\<not> D 0x2A"
  shows "scanner_Scan L D zero_scanner [0x28, 0x61, 0x2A, 0x29, 0x2A] =
     Inr (([\<lparr>tok_typ = LeftParenTok, tok_value = [], tok_pos = 0\<rparr>,
            \<lparr>tok_typ = WordTok, tok_value = ''a'', tok_pos = Suc 0\<rparr>,
            \<lparr>tok_typ = StarTok, tok_value = [], tok_pos = 2\<rparr>,
            \<lparr>tok_typ = RightParenTok, tok_value = [], tok_pos = 3\<rparr>,
            \<lparr>tok_typ = StarTok, tok_value = [], tok_pos = 4\<rparr>], True),
          \<lparr>s_pos = 5, s_input = [0x28, 0x61, 0x2A, 0x29, 0x2A],
             s_tokens = [\<lparr>tok_typ = LeftParenTok, tok_value = [], tok_pos = 0\<rparr>,
            \<lparr>tok_typ = WordTok, tok_value = ''a'', tok_pos = Suc 0\<rparr>,
            \<lparr>tok_typ = StarTok, tok_value = [], tok_pos = 2\<rparr>,
            \<lparr>tok_typ = RightParenTok, tok_value = [], tok_pos = 3\<rparr>,
            \<lparr>tok_typ = StarTok, tok_value = [], tok_pos = 4\<rparr>], s_errs = []\<rparr>)"
  using assms
  by (simp add: scanner_Scan_def zero_scanner_def scanLoop.simps scan_next_def skipSpaces.simps
      wordLoop.simps scan_word_def punct_def IsSpace_def isValidWordRune_def encodeRune_def
      char_of_def)

lemma parse_nested_star:
  "parser_Parse 12 zero_parser
     [\<lparr>tok_typ = LeftParenTok, tok_value = [], tok_pos = 0\<rparr>,
      \<lparr>tok_typ = WordTok, tok_value = ''a'', tok_pos = Suc 0\<rparr>,
      \<lparr>tok_typ = StarTok, tok_value = [], tok_pos = 2\<rparr>,
      \<lparr>tok_typ = RightParenTok, tok_value = [], tok_pos = 3\<rparr>,
      \<lparr>tok_typ = StarTok, tok_value = [], tok_pos = 4\<rparr>] =
   Some (Inr ((Rep RepeatZeroOrMore (Rep RepeatZeroOrMore (Word ''a'')), []),
     zero_parser\<lparr>p_tokens := [\<lparr>tok_typ = LeftParenTok, tok_value = [], tok_pos = 0\<rparr>,
      \<lparr>tok_typ = WordTok, tok_value = ''a'', tok_pos = Suc 0\<rparr>,
      \<lparr>tok_typ = StarTok, tok_value = [], tok_pos = 2\<rparr>,
      \<lparr>tok_typ = RightParenTok, tok_value = [], tok_pos = 3\<rparr>,
      \<lparr>tok_typ = StarTok, tok_value = [], tok_pos = 4\<rparr>], p_current := 5\<rparr>))"
  by (simp add: parser_eval eval_nat_numeral)


lemma Add_nested_star:
  assumes "L 0x61" "\<not> L 0x2A" "\<not> D 0x2A"
  shows "Add L D 12 zero_Cmds [0x28, 0x61, 0x2A, 0x29, 0x2A] cb =
     Some (Inr (None, addParseTree zero_Cmds (Rep RepeatZeroOrMore (Rep RepeatZeroOrMore (Word ''a''))) cb))"
  using scan_nested_star[of L D, OF assms]
  by (simp add: Add_def scanAndParse_def parse_nested_star fbind_def)

lemma scan_nested_opt:
  assumes "L 0x61" "\<not> L 0x3F" "\<not> D 0x3F"
  shows "scanner_Scan L D zero_scanner [0x28, 0x61, 0x3F, 0x29, 0x3F] =
     Inr (([\<lparr>tok_typ = LeftParenTok, tok_value = [], tok_pos = 0\<rparr>,
            \<lparr>tok_typ = WordTok, tok_value = ''a'', tok_pos = Suc 0\<rparr>,
            \<lparr>tok_typ = QuestionTok, tok_value = [], tok_pos = 2\<rparr>,
            \<lparr>tok_typ = RightParenTok, tok_value = [], tok_pos = 3\<rparr>,
            \<lparr>tok_typ = QuestionTok, tok_value = [], tok_pos = 4\<rparr>], True),
          \<lparr>s_pos = 5, s_input = [0x28, 0x61, 0x3F, 0x29, 0x3F],
             s_tokens = [\<lparr>tok_typ = LeftParenTok, tok_value = [], tok_pos = 0\<rparr>,
            \<lparr>tok_typ = WordTok, tok_value = ''a'', tok_pos = Suc 0\<rparr>,
            \<lparr>tok_typ = QuestionTok, tok_value = [], tok_pos = 2\<rparr>,
            \<lparr>tok_typ = RightParenTok, tok_value = [], tok_pos = 3\<rparr>,
            \<lparr>tok_typ = QuestionTok, tok_value = [], tok_pos = 4\<rparr>], s_errs = []\<rparr>)"
  using assms
  by (simp add: scanner_Scan_def zero_scanner_def scanLoop.simps scan_next_def skipSpaces.simps
      wordLoop.simps scan_word_def punct_def IsSpace_def isValidWordRune_def encodeRune_def
      char_of_def)

lemma parse_nested_opt:
  "parser_Parse 12 zero_parser
     [\<lparr>tok_typ = LeftParenTok, tok_value = [], tok_pos = 0\<rparr>,
      \<lparr>tok_typ = WordTok, tok_value = ''a'', tok_pos = Suc 0\<rparr>,
      \<lparr>tok_typ = QuestionTok, tok_value = [], tok_pos = 2\<rparr>,
      \<lparr>tok_typ = RightParenTok, tok_value = [], tok_pos = 3\<rparr>,
      \<lparr>tok_typ = QuestionTok, tok_value = [], tok_pos = 4\<rparr>] =
   Some (Inr ((Rep RepeatZeroOrOne (Rep RepeatZeroOrOne (Word ''a'')), []),
     zero_parser\<lparr>p_tokens := [\<lparr>tok_typ = LeftParenTok, tok_value = [], tok_pos = 0\<rparr>,
      \<lparr>tok_typ = WordTok, tok_value = ''a'', tok_pos = Suc 0\<rparr>,
      \<lparr>tok_typ = QuestionTok, tok_value = [], tok_pos = 2\<rparr>,
      \<lparr>tok_typ = RightParenTok, tok_value = [], tok_pos = 3\<rparr>,
      \<lparr>tok_typ = QuestionTok, tok_value = [], tok_pos = 4\<rparr>], p_current := 5\<rparr>))"
  by (simp add: parser_eval eval_nat_numeral)


lemma Add_nested_opt:
  assumes "L 0x61" "\<not> L 0x3F" "\<not> D 0x3F"
  shows "Add L D 12 zero_Cmds [0x28, 0x61, 0x3F, 0x29, 0x3F] cb =
     Some (Inr (None, addParseTree zero_Cmds (Rep RepeatZeroOrOne (Rep RepeatZeroOrOne (Word ''a''))) cb))"
  using scan_nested_opt[of L D, OF assms]
  by (simp add: Add_def scanAndParse_def parse_nested_opt fbind_def)


lemma Add_show:
  assumes "L 0x73" "L 0x68" "L 0x6F" "L 0x77"
  shows "Add L D 4 zero_Cmds [0x73, 0x68, 0x6F, 0x77] cb =
     Some (Inr (None, addParseTree zero_Cmds (Word ''show'') cb))"
proof -
  have s: "scanner_Scan L D zero_scanner [0x73, 0x68, 0x6F, 0x77] =
     Inr (([\<lparr>tok_typ = WordTok, tok_value = ''show'', tok_pos = 0\<rparr>], True),
          \<lparr>s_pos = 4, s_input = [0x73, 0x68, 0x6F, 0x77],
             s_tokens = [\<lparr>tok_typ = WordTok, tok_value = ''show'', tok_pos = 0\<rparr>], s_errs = []\<rparr>)"
    using assms
    by (simp add: scanner_Scan_def zero_scanner_def scanLoop.simps scan_next_def skipSpaces.simps
        wordLoop.simps scan_word_def punct_def IsSpace_def isValidWordRune_def encodeRune_def
        char_of_def)
  have p: "parser_Parse 4 zero_parser [\<lparr>tok_typ = WordTok, tok_value = ''show'', tok_pos = 0\<rparr>] =
     Some (Inr ((Word ''show'', []),
       zero_parser\<lparr>p_tokens := [\<lparr>tok_typ = WordTok, tok_value = ''show'', tok_pos = 0\<rparr>],
                     p_current := 1\<rparr>))"
    by (simp add: parser_eval eval_nat_numeral)
  show ?thesis using s by (simp add: Add_def scanAndParse_def p fbind_def)
qed

section \<open>Properties of the dispatcher\<close>









lemma metaOK_pc [simp]: "c_instr (c\<lparr>c_pc := k\<rparr>) = c_instr c"
  by simp






lemma pc_setInstr: "c_pc (setInstr c i f) = c_pc c"
  by (simp add: setInstr_def)










lemma addParseTree_registered:
  "registered (parseTree c) \<Longrightarrow> metaSet t \<Longrightarrow> registered (parseTree (addParseTree c t cb))"
  by (simp add: addParseTree_def Let_def)

lemma parseWord_metaSet: "parseWord p = Inr (t, p') \<Longrightarrow> metaSet t"
  by (auto simp: parseWord_def sbind_def split: sum.splits if_splits prod.splits)

lemma parseVar_metaSet: "parseVar p = Inr (t, p') \<Longrightarrow> metaSet t"
  by (auto simp: parseVar_def sbind_def split: sum.splits if_splits prod.splits option.splits)

lemma parseTerm_metaSet: "parseTerm p = Inr (t, p') \<Longrightarrow> metaSet t"
  by (auto simp: parseTerm_def sbind_def split: sum.splits if_splits prod.splits
      dest: parseWord_metaSet parseVar_metaSet)

lemma parse_metaSet:
  "(\<forall>p (t :: 'm node) p'. parseAlternatives n p = Some (Inr (t, p')) \<longrightarrow> metaSet t) \<and>
   (\<forall>p (t :: 'm node) p'. parseTerms n p = Some (Inr (t, p')) \<longrightarrow> metaSet t) \<and>
   (\<forall>p (t :: 'm node) p'. parseRepetition n p = Some (Inr (t, p')) \<longrightarrow> metaSet t) \<and>
   (\<forall>p (t :: 'm node) p'. parseGroup n p = Some (Inr (t, p')) \<longrightarrow> metaSet t)"
proof (induction n)
  case 0
  then show ?case by simp
next
  case (Suc n)
  from Suc have A: "parseAlternatives n p = Some (Inr (t, p')) \<Longrightarrow> metaSet t" for p and t :: "'m node" and p'
    by blast
  from Suc have T: "parseTerms n p = Some (Inr (t, p')) \<Longrightarrow> metaSet t" for p and t :: "'m node" and p'
    by blast
  from Suc have R: "parseRepetition n p = Some (Inr (t, p')) \<Longrightarrow> metaSet t" for p and t :: "'m node" and p'
    by blast
  from Suc have G: "parseGroup n p = Some (Inr (t, p')) \<Longrightarrow> metaSet t" for p and t :: "'m node" and p'
    by blast
  have 1: "parseAlternatives (Suc n) p = Some (Inr (t, p')) \<Longrightarrow> metaSet t" for p and t :: "'m node" and p'
    by (auto simp: fbind_def split: option.splits sum.splits if_splits prod.splits dest: A T)
  have 2: "parseTerms (Suc n) p = Some (Inr (t, p')) \<Longrightarrow> metaSet t" for p and t :: "'m node" and p'
    by (auto simp: fbind_def split: option.splits sum.splits if_splits prod.splits dest: T R)
  have 3: "parseRepetition (Suc n) p = Some (Inr (t, p')) \<Longrightarrow> metaSet t" for p and t :: "'m node" and p'
    by (auto simp: fbind_def split: option.splits sum.splits if_splits prod.splits dest: G)
  have 4: "parseGroup (Suc n) p = Some (Inr (t, p')) \<Longrightarrow> metaSet t" for p and t :: "'m node" and p'
    by (auto simp: fbind_def split: option.splits sum.splits if_splits prod.splits
        dest: A parseTerm_metaSet)
  from 1 2 3 4 show ?case by blast
qed

lemma Add_registered:
  assumes "registered (parseTree c)" and "Add L D fuel c cmd cb = Some (Inr (err, c'))"
  shows "registered (parseTree c')"
proof -
  from assms(2) obtain t e where sp: "scanAndParse L D fuel cmd = Some (Inr (t, e))"
    and c': "c' = (if e \<noteq> None then c else addParseTree c t cb)"
    by (auto simp: Add_def fbind_def split: option.splits sum.splits if_splits prod.splits)
  have "metaSet t"
    using sp parse_metaSet[of fuel]
    by (auto simp: scanAndParse_def parser_Parse_def parser_parse_def parseCommand_def fbind_def
        split: option.splits sum.splits if_splits prod.splits)
  with assms(1) c' show ?thesis by (simp add: addParseTree_registered)
qed





end
